theory Spec2Isabelle
  imports Complex_Main
begin

section \<open>Errors\<close>

text \<open>
  The Python exceptions that the modelled functions of \<^verbatim>\<open>model.py\<close> can raise.
  A function that may raise returns \<open>error + 'a\<close>, with \<open>Inl\<close> for the exception.
\<close>

datatype error =
    IndexError
  | KeyError
  | ValueError string
  | TypeError
  | AssertionError string
  | ZeroDivisionError
  | OverflowError

section \<open>Parity-check matrices\<close>

subsection \<open>Classical code descriptions\<close>

text \<open>
  An entry of a code description \<^verbatim>\<open>clist\<close> is a string (the markers \<^verbatim>\<open>"B"\<close> and
  \<^verbatim>\<open>"C"\<close>, or any other string) or an integer.
\<close>

datatype token = Str string | Num int

text \<open>
  A numpy array of integers, as far as the code distinguishes shapes: a one-dimensional
  array, or a two-dimensional one with its shape \<open>(rows, columns)\<close> and its rows.
\<close>

datatype ndarray = Arr1 "int list" | Arr2 nat nat "int list list"

text \<open>
  \<^verbatim>\<open>one_hot_vec[i] = 1\<close> on a one-dimensional numpy array of length \<open>n\<close>: an index in
  \<open>[-n, n)\<close> is accepted, a negative one counting from the end. Any other index
  raises IndexError, except a Python integer in \<open>[2\<^sup>6\<^sup>3, 2\<^sup>6\<^sup>4)\<close>: it does not fit
  numpy's signed 64-bit index type, is read as an unsigned 64-bit integer, and its
  conversion to an index raises OverflowError.
\<close>

definition overflows_index_type :: "int \<Rightarrow> bool" where
  "overflows_index_type i \<longleftrightarrow> 2 ^ 63 \<le> i \<and> i < 2 ^ 64"

definition set_one :: "int list \<Rightarrow> int \<Rightarrow> error + int list" where
  "set_one v i =
     (let n = int (length v) in
      if 0 \<le> i \<and> i < n then Inr (v[nat i := 1])
      else if - n \<le> i \<and> i < 0 then Inr (v[nat (i + n) := 1])
      else if overflows_index_type i then Inl OverflowError
      else Inl IndexError)"

text \<open>
  The inner \<^verbatim>\<open>while\<close> loop of \<^verbatim>\<open>classical_pcm\<close>: from the entry after a \<^verbatim>\<open>"C"\<close>,
  every entry that is not a string is used as an index into the row; the loop stops at
  the first string or at the end of the list.
\<close>

fun fill_row :: "int list \<Rightarrow> token list \<Rightarrow> error + int list" where
  "fill_row v [] = Inr v"
| "fill_row v (Str s # rest) = Inr v"
| "fill_row v (Num i # rest) =
     (case set_one v i of Inl e \<Rightarrow> Inl e | Inr v' \<Rightarrow> fill_row v' rest)"

text \<open>
  The outer \<^verbatim>\<open>for\<close> loop: one row for each entry equal to \<^verbatim>\<open>"C"\<close>, in order; the
  first exception ends the loop.
\<close>

fun pcm_rows :: "nat \<Rightarrow> token list \<Rightarrow> error + int list list" where
  "pcm_rows num_bits [] = Inr []"
| "pcm_rows num_bits (t # rest) =
     (if t = Str ''C'' then
        (case fill_row (replicate num_bits 0) rest of
           Inl e \<Rightarrow> Inl e
         | Inr one_hot_vec \<Rightarrow>
             (case pcm_rows num_bits rest of
                Inl e \<Rightarrow> Inl e
              | Inr H \<Rightarrow> Inr (one_hot_vec # H)))
      else pcm_rows num_bits rest)"

text \<open>
  \<^verbatim>\<open>np.array(H, dtype=int)\<close> for a list \<open>H\<close> of arrays of length \<open>n\<close>: the empty list
  gives a one-dimensional array of shape \<open>(0,)\<close>, any other a two-dimensional array.
\<close>

definition np_array :: "nat \<Rightarrow> int list list \<Rightarrow> ndarray" where
  "np_array n H = (if H = [] then Arr1 [] else Arr2 (length H) n H)"

definition classical_pcm :: "token list \<Rightarrow> error + ndarray" where
  "classical_pcm clist =
     (let num_bits = count_list clist (Str ''B'') in
      case pcm_rows num_bits clist of
        Inl e \<Rightarrow> Inl e
      | Inr H \<Rightarrow> Inr (np_array num_bits H))"

text \<open>The rows of an array (what iterating over it yields), and all its entries.\<close>

fun nd_rows :: "ndarray \<Rightarrow> int list list" where
  "nd_rows (Arr1 xs) = map (\<lambda>x. [x]) xs"
| "nd_rows (Arr2 r n rows) = rows"

fun nd_len :: "ndarray \<Rightarrow> nat" where
  "nd_len (Arr1 xs) = length xs"
| "nd_len (Arr2 r n rows) = r"

fun nd_entries :: "ndarray \<Rightarrow> int set" where
  "nd_entries (Arr1 xs) = set xs"
| "nd_entries (Arr2 r n rows) = (\<Union>row \<in> set rows. set row)"

text \<open>
  The connection indices of a description, in the spec's words: for each \<^verbatim>\<open>"C"\<close>, the
  run of integers that follows it up to the next string.
\<close>

fun index_run :: "token list \<Rightarrow> int list" where
  "index_run (Num i # rest) = i # index_run rest"
| "index_run _ = []"

fun check_runs :: "token list \<Rightarrow> int list list" where
  "check_runs [] = []"
| "check_runs (t # rest) =
     (if t = Str ''C'' then index_run rest # check_runs rest else check_runs rest)"

definition connection_indices :: "token list \<Rightarrow> int list" where
  "connection_indices clist = concat (check_runs clist)"

text \<open>
  The column that an accepted index sets, among \<open>n\<close> columns: an index \<open>i \<ge> 0\<close> is
  column \<open>i\<close>, an index \<open>i < 0\<close> is column \<open>n + i\<close>. The row of a check is 1 in the
  columns of its indices and 0 elsewhere.
\<close>

definition column_of :: "nat \<Rightarrow> int \<Rightarrow> int" where
  "column_of n i = (if i < 0 then int n + i else i)"

definition one_hot_row :: "nat \<Rightarrow> int list \<Rightarrow> int list" where
  "one_hot_row n run =
     map (\<lambda>c. if int c \<in> column_of n ` set run then 1 else 0) [0 ..< n]"

subsection \<open>The hypergraph product\<close>

text \<open>
  The numpy operations that \<^verbatim>\<open>hypergraph_pcm\<close> applies to two-dimensional arrays, on
  the rows of the arrays. \<open>np_eye n\<close> is the identity, \<open>np_kron\<close> the Kronecker product
  (row \<open>i * p + k\<close> of the product is made of row \<open>i\<close> of the first and row \<open>k\<close> of the
  second factor, which has \<open>p\<close> rows), \<open>np_transpose\<close> is \<^verbatim>\<open>.T\<close>, and
  \<open>np_append_axis1\<close> is \<^verbatim>\<open>np.append(..., axis=1)\<close>, which raises ValueError unless both
  arrays have the same number of rows.
\<close>

definition unit_row :: "nat \<Rightarrow> nat \<Rightarrow> int list" where
  "unit_row n i = map (\<lambda>j. if i = j then 1 else 0) [0 ..< n]"

definition np_eye :: "nat \<Rightarrow> ndarray" where
  "np_eye n = Arr2 n n (map (unit_row n) [0 ..< n])"

definition kron_row :: "int list \<Rightarrow> int list \<Rightarrow> int list" where
  "kron_row xs ys = concat (map (\<lambda>x. map (\<lambda>y. x * y) ys) xs)"

fun np_kron :: "ndarray \<Rightarrow> ndarray \<Rightarrow> error + ndarray" where
  "np_kron (Arr2 ra ca A) (Arr2 rb cb B) =
     Inr (Arr2 (ra * rb) (ca * cb)
            (concat (map (\<lambda>rowA. map (\<lambda>rowB. kron_row rowA rowB) B) A)))"
| "np_kron _ _ = Inl (ValueError ''shape'')"

fun np_transpose :: "ndarray \<Rightarrow> ndarray" where
  "np_transpose (Arr2 r c A) = Arr2 c r (map (\<lambda>j. map (\<lambda>row. row ! j) A) [0 ..< c])"
| "np_transpose (Arr1 xs) = Arr1 xs"

fun np_append_axis1 :: "ndarray \<Rightarrow> ndarray \<Rightarrow> error + ndarray" where
  "np_append_axis1 (Arr2 ra ca A) (Arr2 rb cb B) =
     (if ra = rb then Inr (Arr2 ra (ca + cb) (map2 (@) A B))
      else Inl (ValueError ''shape''))"
| "np_append_axis1 _ _ = Inl (ValueError ''shape'')"

text \<open>
  \<^verbatim>\<open>r, n = H.shape\<close> raises ValueError for an array that is not two-dimensional.
\<close>

fun shape2 :: "ndarray \<Rightarrow> error + nat \<times> nat" where
  "shape2 (Arr2 r n rows) = Inr (r, n)"
| "shape2 (Arr1 xs) = Inl (ValueError ''unpack'')"

text \<open>Sequencing of computations that may raise.\<close>

definition bind :: "error + 'a \<Rightarrow> ('a \<Rightarrow> error + 'b) \<Rightarrow> error + 'b" where
  "bind m f = (case m of Inl e \<Rightarrow> Inl e | Inr x \<Rightarrow> f x)"

definition hypergraph_pcm :: "ndarray \<Rightarrow> ndarray \<Rightarrow> error + ndarray \<times> ndarray" where
  "hypergraph_pcm H1 H2 =
     bind (shape2 H1) (\<lambda>(r1, n1).
     bind (shape2 H2) (\<lambda>(r2, n2).
     bind (np_kron H1 (np_eye n2)) (\<lambda>a.
     bind (np_kron (np_eye r1) (np_transpose H2)) (\<lambda>b.
     bind (np_append_axis1 a b) (\<lambda>HX.
     bind (np_kron (np_eye n1) H2) (\<lambda>c.
     bind (np_kron (np_transpose H1) (np_eye r2)) (\<lambda>d.
     bind (np_append_axis1 c d) (\<lambda>HZ.
     Inr (HX, HZ)))))))))"

text \<open>
  A two-dimensional array is well formed when its rows agree with its shape. The
  product \<open>A \<cdot> B\<^sup>T\<close> over GF(2) has, in row \<open>i\<close> and column \<open>j\<close>, the inner product of
  row \<open>i\<close> of \<open>A\<close> and row \<open>j\<close> of \<open>B\<close>, modulo 2.
\<close>

fun matrix2 :: "ndarray \<Rightarrow> bool" where
  "matrix2 (Arr2 r n rows) \<longleftrightarrow> length rows = r \<and> list_all (\<lambda>row. length row = n) rows"
| "matrix2 (Arr1 xs) \<longleftrightarrow> False"

definition dot :: "int list \<Rightarrow> int list \<Rightarrow> int" where
  "dot xs ys = sum_list (map2 (*) xs ys)"

definition mult_transpose_mod2 :: "ndarray \<Rightarrow> ndarray \<Rightarrow> int list list" where
  "mult_transpose_mod2 A B =
     map (\<lambda>x. map (\<lambda>z. dot x z mod 2) (nd_rows B)) (nd_rows A)"

text \<open>
  The block form that the spec names, entry by entry. The Kronecker product \<open>A \<otimes> B\<close> of
  \<open>A\<close> with a matrix \<open>B\<close> of \<open>p\<close> rows and \<open>q\<close> columns has the entry
  \<open>A[a div p][c div q] \<cdot> B[a mod p][c mod q]\<close> in row \<open>a\<close> and column \<open>c\<close>. For \<open>H1\<close> of shape
  \<open>(r1, n1)\<close> and \<open>H2\<close> of shape \<open>(r2, n2)\<close>, \<open>block_hx\<close> is the entry of
  \<open>[H1 \<otimes> I | I \<otimes> H2\<^sup>T]\<close>, whose first block has \<open>n1 \<cdot> n2\<close> columns, and \<open>block_hz\<close> the
  entry of \<open>[I \<otimes> H2 | H1\<^sup>T \<otimes> I]\<close>.
\<close>

definition kron_entry ::
  "(nat \<Rightarrow> nat \<Rightarrow> int) \<Rightarrow> (nat \<Rightarrow> nat \<Rightarrow> int) \<Rightarrow> nat \<Rightarrow> nat \<Rightarrow> nat \<Rightarrow> nat \<Rightarrow> int" where
  "kron_entry A B p q a c = A (a div p) (c div q) * B (a mod p) (c mod q)"

definition identity_entry :: "nat \<Rightarrow> nat \<Rightarrow> int" where
  "identity_entry i j = (if i = j then 1 else 0)"

fun block_hx :: "ndarray \<Rightarrow> ndarray \<Rightarrow> nat \<Rightarrow> nat \<Rightarrow> int" where
  "block_hx (Arr2 r1 n1 A) (Arr2 r2 n2 B) a c =
     (if c < n1 * n2
      then kron_entry (\<lambda>i j. A ! i ! j) identity_entry n2 n2 a c
      else kron_entry identity_entry (\<lambda>k l. B ! l ! k) n2 r2 a (c - n1 * n2))"
| "block_hx _ _ a c = 0"

fun block_hz :: "ndarray \<Rightarrow> ndarray \<Rightarrow> nat \<Rightarrow> nat \<Rightarrow> int" where
  "block_hz (Arr2 r1 n1 A) (Arr2 r2 n2 B) b c =
     (if c < n1 * n2
      then kron_entry identity_entry (\<lambda>l k. B ! l ! k) r2 n2 b c
      else kron_entry (\<lambda>j i. A ! i ! j) identity_entry r2 r2 b (c - n1 * n2))"
| "block_hz _ _ b c = 0"

section \<open>Crossing edges of a graph layout\<close>




























section \<open>Circuits\<close>

text \<open>
  The circuit library (\<^verbatim>\<open>stim\<close>) is not part of the repository. A circuit is modelled
  as the sequence of the instructions appended to it: the name of the instruction, its
  targets and its arguments. A target is a qubit or a lookback \<^verbatim>\<open>stim.target_rec(k)\<close>
  into the measurement record. \<^verbatim>\<open>circuit * n\<close> is the circuit repeated \<open>n\<close> times and
  \<^verbatim>\<open>+=\<close> appends a circuit. The model keeps the calls of \<^verbatim>\<open>append\<close> apart: whether
  the library merges adjacent instructions of the same name is outside the model.
  Probabilities are real numbers; the rounding of floating-point division is not
  modelled.
\<close>

datatype target = Qubit int | Rec int

datatype instruction = Instr (name: string) (targets: "target list") (args: "real list")

definition gate :: "string \<Rightarrow> int list \<Rightarrow> instruction" where
  "gate g qs = Instr g (map Qubit qs) []"

definition channel :: "string \<Rightarrow> int list \<Rightarrow> real list \<Rightarrow> instruction" where
  "channel g qs ps = Instr g (map Qubit qs) ps"

definition detector :: "int list \<Rightarrow> instruction" where
  "detector lookbacks = Instr ''DETECTOR'' (map Rec lookbacks) []"

definition observable_include :: "int list \<Rightarrow> instruction" where
  "observable_include lookbacks = Instr ''OBSERVABLE_INCLUDE'' (map Rec lookbacks) [0]"

text \<open>\<^verbatim>\<open>range(n)\<close> and \<^verbatim>\<open>np.arange(n)\<close> for an integer \<open>n\<close>: empty when \<open>n \<le> 0\<close>.\<close>

definition py_range :: "int \<Rightarrow> int list" where
  "py_range n = [0 .. n - 1]"

text \<open>\<^verbatim>\<open>range(len(xs))\<close>.\<close>

definition indices :: "'a list \<Rightarrow> int list" where
  "indices xs = map int [0 ..< length xs]"

text \<open>The slice \<^verbatim>\<open>xs[::2]\<close>; \<^verbatim>\<open>xs[1::2]\<close> is \<open>step2 (drop 1 xs)\<close>.\<close>

fun step2 :: "'a list \<Rightarrow> 'a list" where
  "step2 [] = []"
| "step2 [x] = [x]"
| "step2 (x # y # xs) = x # step2 xs"

section \<open>The stabilizer model\<close>

text \<open>
  The keyword arguments \<^verbatim>\<open>**kwargs\<close> of the constructor: a dictionary in which each
  of the keys may be missing. The value of \<^verbatim>\<open>pos\<close> is never used.
\<close>

record params =
  distance :: "int option"
  scale :: "(int \<times> int) option"
  clist1 :: "token list option"
  clist2 :: "token list option"
  pos :: "unit option"

definition lookup :: "'a option \<Rightarrow> error + 'a" where
  "lookup v = (case v of None \<Rightarrow> Inl KeyError | Some x \<Rightarrow> Inr x)"

text \<open>
  The fields of a \<^verbatim>\<open>StabilizerModel\<close>. A noise field is a list of probabilities or
  \<^verbatim>\<open>None\<close>.
\<close>

record stabilizer_model =
  circuit :: "instruction list"
  rounds :: nat
  qubits :: "int list"
  data_qubits :: "int list"
  z_check_qubits :: "int list"
  x_check_qubits :: "int list"
  noise_circuit :: "real list option"
  noise_data :: "real list option"
  noise_z_check :: "real list option"
  noise_x_check :: "real list option"
  code_params :: params

text \<open>
  A noise argument of the constructor: a number, a list of numbers, or \<^verbatim>\<open>None\<close>.
  A number \<open>p\<close> becomes \<open>n\<close> times \<open>p / n\<close>; a list is kept if its length is \<open>n\<close>, and
  fails the assertion otherwise; \<^verbatim>\<open>None\<close> is not a number, and \<^verbatim>\<open>len(None)\<close>
  raises TypeError.
\<close>

datatype noise_arg = Scalar real | Vector "real list" | NoNoise

fun is_vector :: "noise_arg \<Rightarrow> bool" where
  "is_vector (Vector v) = True"
| "is_vector _ = False"

definition normalize_noise :: "nat \<Rightarrow> string \<Rightarrow> noise_arg \<Rightarrow> error + real list" where
  "normalize_noise n message noise =
     (case noise of
        Scalar p \<Rightarrow> Inr (replicate n (p / real n))
      | Vector v \<Rightarrow> if length v = n then Inr v else Inl (AssertionError message)
      | NoNoise \<Rightarrow> Inl TypeError)"

text \<open>
  The message of the fourth assertion is formatted with \<^verbatim>\<open>len(noise_z_check)\<close>, which
  raises TypeError when \<^verbatim>\<open>noise_z_check\<close> was given as a number.
\<close>

definition normalize_noise_x :: "noise_arg \<Rightarrow> noise_arg \<Rightarrow> error + real list" where
  "normalize_noise_x noise_z noise =
     (case noise of
        Scalar p \<Rightarrow> Inr (replicate 3 (p / 3))
      | Vector v \<Rightarrow>
          if length v = 3 then Inr v
          else if is_vector noise_z
            then Inl (AssertionError ''Data qubit noise takes 3 parameters'')
            else Inl TypeError
      | NoNoise \<Rightarrow> Inl TypeError)"

text \<open>\<^verbatim>\<open>str.split(":")\<close>, and the unpacking of the code name into family and subcode.\<close>

fun split_colon :: "string \<Rightarrow> string list" where
  "split_colon [] = [[]]"
| "split_colon (c # cs) =
     (if c = CHR '':'' then [] # split_colon cs
      else (case split_colon cs of w # ws \<Rightarrow> (c # w) # ws | [] \<Rightarrow> [[c]]))"

definition parse_code :: "string \<Rightarrow> error + string \<times> string option" where
  "parse_code code =
     (if CHR '':'' \<in> set code then
        (case split_colon code of
           [main_code, subcode] \<Rightarrow> Inr (main_code, Some subcode)
         | _ \<Rightarrow> Inl (ValueError ''unpack''))
      else Inr (code, None))"

subsection \<open>The repetition code\<close>

text \<open>
  The stabilizer measurement of one check qubit \<open>m\<close>: two CNOT gates, each followed
  (after both) by a two-qubit noise channel unless the gate noise is \<^verbatim>\<open>None\<close>.
\<close>

definition repetition_check :: "real list option \<Rightarrow> int \<Rightarrow> instruction list" where
  "repetition_check noise m =
     [gate ''CNOT'' [m - 1, m], gate ''CNOT'' [m + 1, m]]
     @ (case noise of
          None \<Rightarrow> []
        | Some p \<Rightarrow> [channel ''PAULI_CHANNEL_2'' [m - 1, m] p,
                     channel ''PAULI_CHANNEL_2'' [m + 1, m] p])"

text \<open>A one-qubit noise channel on a group of qubits, unless the noise is \<^verbatim>\<open>None\<close>.\<close>

definition qubit_noise :: "real list option \<Rightarrow> int list \<Rightarrow> instruction list" where
  "qubit_noise noise qs =
     (case noise of None \<Rightarrow> [] | Some p \<Rightarrow> [channel ''PAULI_CHANNEL_1'' qs p])"

text \<open>The circuit of one round, built once and repeated \<open>rounds\<close> times.\<close>

definition repetition_round :: "stabilizer_model \<Rightarrow> int \<Rightarrow> instruction list" where
  "repetition_round s d =
     concat (map (repetition_check (noise_circuit s)) (z_check_qubits s))
     @ qubit_noise (noise_data s) (data_qubits s)
     @ qubit_noise (noise_z_check s) (z_check_qubits s)
     @ [gate ''MR'' (z_check_qubits s)]
     @ map (\<lambda>k. detector [- 1 - k, - 1 - k - d]) (indices (z_check_qubits s))"

definition repetition_final :: "stabilizer_model \<Rightarrow> int \<Rightarrow> instruction list" where
  "repetition_final s d =
     [gate ''M'' (data_qubits s)]
     @ map (\<lambda>k. detector [- 1 - k, - 2 - k, - 2 - k - d]) (indices (z_check_qubits s))
     @ [observable_include [- 1]]"

definition repetition_code :: "stabilizer_model \<Rightarrow> error + stabilizer_model" where
  "repetition_code s =
     bind (lookup (distance (code_params s))) (\<lambda>d.
       Inr (s\<lparr>circuit :=
              circuit s
              @ [gate ''M'' (z_check_qubits s)]
              @ concat (replicate (rounds s) (repetition_round s d))
              @ repetition_final s d\<rparr>))"

subsection \<open>The surface code\<close>

text \<open>
  The instructions of one lattice site in a round: a Z check where the row is even and
  the column odd, an X check where the row is odd and the column even, nothing
  elsewhere. \<open>R\<close> and \<open>C\<close> are the two components of \<^verbatim>\<open>scale\<close>.
\<close>

definition z_check_pairs :: "int \<Rightarrow> int \<Rightarrow> int \<Rightarrow> int \<Rightarrow> int list list" where
  "z_check_pairs R C row curr_qubit =
     [[curr_qubit - 1, curr_qubit], [curr_qubit + 1, curr_qubit]]
     @ (if row = 0 then [[curr_qubit + C, curr_qubit]]
        else if row = R - 1 then [[curr_qubit - C, curr_qubit]]
        else [[curr_qubit - C, curr_qubit], [curr_qubit + C, curr_qubit]])"

definition x_check_pairs :: "int \<Rightarrow> int \<Rightarrow> int \<Rightarrow> int \<Rightarrow> int list list" where
  "x_check_pairs R C col curr_qubit =
     [[curr_qubit - C, curr_qubit], [curr_qubit + C, curr_qubit]]
     @ (if col = 0 then [[curr_qubit + 1, curr_qubit]]
        else if col = C - 1 then [[curr_qubit - 1, curr_qubit]]
        else [[curr_qubit - 1, curr_qubit], [curr_qubit + 1, curr_qubit]])"

definition gate_noise :: "real list option \<Rightarrow> int list list \<Rightarrow> instruction list" where
  "gate_noise noise pairs =
     (case noise of
        None \<Rightarrow> []
      | Some p \<Rightarrow> map (\<lambda>pair. channel ''PAULI_CHANNEL_2'' pair p) pairs)"

definition surface_site :: "real list option \<Rightarrow> int \<Rightarrow> int \<Rightarrow> int \<times> int \<Rightarrow> instruction list" where
  "surface_site noise R C site =
     (case site of (row, col) \<Rightarrow>
        let curr_qubit = row * C + col in
        if row mod 2 = 0 \<and> col mod 2 \<noteq> 0 then
          map (gate ''CNOT'') (z_check_pairs R C row curr_qubit)
          @ gate_noise noise (z_check_pairs R C row curr_qubit)
        else if row mod 2 \<noteq> 0 \<and> col mod 2 = 0 then
          [gate ''H'' [curr_qubit]]
          @ map (gate ''CNOT'') (x_check_pairs R C col curr_qubit)
          @ [gate ''H'' [curr_qubit]]
          @ gate_noise noise (x_check_pairs R C col curr_qubit)
        else [])"

text \<open>The sites \<open>(row, col)\<close> in the order of the two nested loops.\<close>

definition sites :: "int \<Rightarrow> int \<Rightarrow> (int \<times> int) list" where
  "sites R C = concat (map (\<lambda>row. map (\<lambda>col. (row, col)) (py_range C)) (py_range R))"

text \<open>
  The detectors of a round compare the measurement of check \<open>k\<close>, counted from the end
  of the measurement record, with the one \<open>back\<close> places before it.
\<close>

definition round_detectors :: "int list \<Rightarrow> int \<Rightarrow> instruction list" where
  "round_detectors checks back =
     map (\<lambda>k. detector [- 1 - k, - 1 - k - back]) (indices checks)"

definition detect_changes :: "stabilizer_model \<Rightarrow> string option \<Rightarrow> instruction list" where
  "detect_changes s subcode =
     [gate ''MR'' (z_check_qubits s)]
     @ (if subcode = Some ''z_memory'' then
          round_detectors (z_check_qubits s)
            (int (length (x_check_qubits s @ z_check_qubits s)))
          @ [gate ''MR'' (x_check_qubits s)]
        else if subcode = Some ''x_memory'' then
          [gate ''MR'' (x_check_qubits s)]
          @ round_detectors (x_check_qubits s)
              (int (length (x_check_qubits s @ z_check_qubits s)))
        else [])"

definition surface_round ::
  "stabilizer_model \<Rightarrow> int \<Rightarrow> int \<Rightarrow> string option \<Rightarrow> instruction list" where
  "surface_round s R C subcode =
     concat (map (surface_site (noise_circuit s) R C) (sites R C))
     @ qubit_noise (noise_data s) (data_qubits s)
     @ qubit_noise (noise_z_check s) (z_check_qubits s)
     @ qubit_noise (noise_x_check s) (x_check_qubits s)
     @ detect_changes s subcode"

text \<open>
  The detectors after the final measurement of the data qubits. The loops carry the
  variables \<^verbatim>\<open>row\<close> and \<^verbatim>\<open>skip\<close>; \<open>ndz\<close> and \<open>ndx\<close> are \<^verbatim>\<open>num_data_qubits_z\<close> and
  \<^verbatim>\<open>num_data_qubits_x\<close>, and \<open>back\<close> is \<^verbatim>\<open>len(self.data_qubits + self.x_check_qubits)\<close>.
  The remainder \<^verbatim>\<open>k % n\<close> raises ZeroDivisionError when \<open>n\<close> is 0.
\<close>

fun z_final_detectors ::
  "int \<Rightarrow> int \<Rightarrow> int \<Rightarrow> int \<Rightarrow> int \<Rightarrow> int \<Rightarrow> int list \<Rightarrow> error + instruction list" where
  "z_final_detectors R ndz ndx back row skip [] = Inr []"
| "z_final_detectors R ndz ndx back row skip (k # ks) =
     (if ndx = 0 then Inl ZeroDivisionError
      else
        let row' = (if k mod ndx = 0 \<and> k \<noteq> 0 then row + 2 else row);
            skip' = (if k mod ndx = 0 \<and> k \<noteq> 0 then skip + ndz else skip);
            lookback_records =
              [- 1 - k - back, - 1 - k - skip', - 2 - k - skip']
              @ (if row' = 0 then [- 2 - k - skip' - ndx]
                 else if row' = R - 1 then [- 1 - k - skip' + ndx]
                 else [- 1 - k - skip' + ndx, - 2 - k - skip' - ndx])
        in case z_final_detectors R ndz ndx back row' skip' ks of
             Inl e \<Rightarrow> Inl e
           | Inr ds \<Rightarrow> Inr (detector lookback_records # ds))"

fun x_final_detectors ::
  "int \<Rightarrow> int \<Rightarrow> int \<Rightarrow> int \<Rightarrow> int list \<Rightarrow> error + instruction list" where
  "x_final_detectors ndz ndx back skip [] = Inr []"
| "x_final_detectors ndz ndx back skip (k # ks) =
     (if ndz = 0 then Inl ZeroDivisionError
      else
        let skip' = (if k mod ndz = 0 \<and> k \<noteq> 0 then skip + ndx else skip);
            lookback_records =
              (if k mod ndz = 0 then [- 2 - k - skip' - ndx]
               else if k mod ndz = ndz - 1 then [- 1 - k - skip' - ndx]
               else [- 2 - k - skip' - ndx, - 1 - k - skip' - ndx])
              @ [- 1 - k - back, - 1 - k - skip', - 2 - k - skip']
        in case x_final_detectors ndz ndx back skip' ks of
             Inl e \<Rightarrow> Inl e
           | Inr ds \<Rightarrow> Inr (detector lookback_records # ds))"

definition surface_final_detectors ::
  "stabilizer_model \<Rightarrow> int \<Rightarrow> int \<Rightarrow> string option \<Rightarrow> error + instruction list" where
  "surface_final_detectors s R C subcode =
     (let ndz = C div 2 + 1; ndx = C div 2;
          back = int (length (data_qubits s @ x_check_qubits s)) in
      if subcode = Some ''z_memory'' then
        z_final_detectors R ndz ndx back 0 0 (indices (z_check_qubits s))
      else if subcode = Some ''x_memory'' then
        x_final_detectors ndz ndx back 0 (indices (x_check_qubits s))
      else Inr [])"

definition observable_lookback_indices :: "int \<Rightarrow> int \<Rightarrow> string option \<Rightarrow> int list" where
  "observable_lookback_indices R C subcode =
     (let ndz = C div 2 + 1; ndx = C div 2 in
      if subcode = Some ''z_memory'' then
        map (\<lambda>k. - k * (ndz + ndx) - ndz) (py_range (R div 2 + 1))
      else if subcode = Some ''x_memory'' then
        map (\<lambda>k. - 1 - k) (py_range ndz)
      else [])"

definition surface_code :: "stabilizer_model \<Rightarrow> string option \<Rightarrow> error + stabilizer_model" where
  "surface_code s subcode =
     bind (lookup (scale (code_params s))) (\<lambda>(R, C).
     bind (surface_final_detectors s R C subcode) (\<lambda>final_detectors.
       Inr (s\<lparr>circuit :=
              circuit s
              @ [gate ''R'' (qubits s), gate ''M'' (z_check_qubits s @ x_check_qubits s)]
              @ concat (replicate (rounds s) (surface_round s R C subcode))
              @ [gate ''M'' (data_qubits s)]
              @ final_detectors
              @ [observable_include (observable_lookback_indices R C subcode)]\<rparr>)))"

subsection \<open>The hypergraph product code\<close>

fun is_str :: "token \<Rightarrow> bool" where
  "is_str (Str s) = True"
| "is_str (Num i) = False"

fun shape_sum :: "ndarray \<Rightarrow> nat" where
  "shape_sum (Arr1 xs) = length xs"
| "shape_sum (Arr2 r n rows) = r + n"

definition check_order :: "token list \<Rightarrow> token list \<Rightarrow> string list" where
  "check_order cl1 cl2 =
     (let z_check_order = map (\<lambda>s. if s = Str ''B'' then ''Q'' else ''Z'') (filter is_str cl2);
          x_check_order = map (\<lambda>s. if s = Str ''B'' then ''X'' else ''Q'') (filter is_str cl2)
      in concat (map (\<lambda>s. if s = Str ''B'' then z_check_order else x_check_order)
                   (filter is_str cl1)))"

definition with_role :: "string \<Rightarrow> int list \<Rightarrow> string list \<Rightarrow> int list" where
  "with_role r qs order = map fst (filter (\<lambda>(q, s). s = r) (zip qs order))"

text \<open>
  \<^verbatim>\<open>_hypergraph_product_code\<close> looks up its parameters, computes the matrices and
  prints them; the circuit is left as it is.
\<close>

definition hypergraph_product_code :: "stabilizer_model \<Rightarrow> error + stabilizer_model" where
  "hypergraph_product_code s =
     bind (lookup (pos (code_params s))) (\<lambda>qubit_pos.
     bind (lookup (clist1 (code_params s))) (\<lambda>cl1.
     bind (lookup (clist2 (code_params s))) (\<lambda>cl2.
     bind (classical_pcm cl1) (\<lambda>H1.
     bind (classical_pcm cl2) (\<lambda>H2.
     bind (hypergraph_pcm H1 H2) (\<lambda>(HX, HZ).
       Inr s))))))"

subsection \<open>The constructor\<close>

text \<open>
  The \<^verbatim>\<open>match\<close> statement of the constructor: the role assignment of the code family,
  followed by the construction of its circuit.
\<close>

definition is_data_site :: "int \<times> int \<Rightarrow> bool" where
  "is_data_site site =
     (case site of (row, col) \<Rightarrow>
        (row mod 2 = 0 \<and> col mod 2 = 0) \<or> (row mod 2 \<noteq> 0 \<and> col mod 2 \<noteq> 0))"

definition is_z_check_site :: "int \<times> int \<Rightarrow> bool" where
  "is_z_check_site site = (case site of (row, col) \<Rightarrow> row mod 2 = 0 \<and> col mod 2 \<noteq> 0)"

definition is_x_check_site :: "int \<times> int \<Rightarrow> bool" where
  "is_x_check_site site = (case site of (row, col) \<Rightarrow> row mod 2 \<noteq> 0 \<and> col mod 2 = 0)"

definition qubit_coords :: "int \<Rightarrow> int \<times> int \<Rightarrow> instruction" where
  "qubit_coords C site =
     (case site of (row, col) \<Rightarrow>
        Instr ''QUBIT_COORDS'' [Qubit (row * C + col)] [of_int row, of_int col])"

definition assign_surface_roles :: "stabilizer_model \<Rightarrow> int \<Rightarrow> int \<Rightarrow> stabilizer_model" where
  "assign_surface_roles s R C =
     s\<lparr>circuit := circuit s @ map (qubit_coords C) (sites R C),
       qubits := py_range (R * C),
       data_qubits := map (\<lambda>(row, col). row * C + col) (filter is_data_site (sites R C)),
       x_check_qubits := map (\<lambda>(row, col). row * C + col) (filter is_x_check_site (sites R C)),
       z_check_qubits := map (\<lambda>(row, col). row * C + col) (filter is_z_check_site (sites R C))\<rparr>"

definition assign_repetition_roles :: "stabilizer_model \<Rightarrow> int \<Rightarrow> stabilizer_model" where
  "assign_repetition_roles s d =
     s\<lparr>qubits := py_range (2 * d + 1),
       data_qubits := step2 (py_range (2 * d + 1)),
       z_check_qubits := step2 (drop 1 (py_range (2 * d + 1)))\<rparr>"

definition assign_hypergraph_roles ::
  "stabilizer_model \<Rightarrow> token list \<Rightarrow> token list \<Rightarrow> ndarray \<Rightarrow> ndarray \<Rightarrow> stabilizer_model" where
  "assign_hypergraph_roles s cl1 cl2 H1 H2 =
     (let qs = py_range (int (shape_sum H1 * shape_sum H2)) in
      s\<lparr>qubits := qs,
        data_qubits := with_role ''Q'' qs (check_order cl1 cl2),
        z_check_qubits := with_role ''Z'' qs (check_order cl1 cl2),
        x_check_qubits := with_role ''X'' qs (check_order cl1 cl2)\<rparr>)"

definition build :: "string \<Rightarrow> stabilizer_model \<Rightarrow> error + stabilizer_model" where
  "build code s =
     bind (parse_code code) (\<lambda>(main_code, subcode).
       if main_code = ''repetition_code'' then
         bind (lookup (distance (code_params s))) (\<lambda>d.
           repetition_code (assign_repetition_roles s d))
       else if main_code = ''surface_code'' then
         bind (lookup (scale (code_params s))) (\<lambda>(R, C).
           if R mod 2 \<noteq> 0 \<and> C mod 2 \<noteq> 0
           then surface_code (assign_surface_roles s R C) subcode
           else Inl (AssertionError ''Scale of the surface code must be odd.''))
       else if main_code = ''hypergraph_product_code'' then
         bind (lookup (clist1 (code_params s))) (\<lambda>cl1.
         bind (lookup (clist2 (code_params s))) (\<lambda>cl2.
         bind (classical_pcm cl1) (\<lambda>H1.
         bind (classical_pcm cl2) (\<lambda>H2.
           hypergraph_product_code (assign_hypergraph_roles s cl1 cl2 H1 H2)))))
       else Inl (ValueError ''Code not recognized.''))"

text \<open>
  The state in which the \<^verbatim>\<open>match\<close> statement starts, and the constructor
  \<^verbatim>\<open>StabilizerModel(code, circuit, rounds, noise_circuit, noise_data, noise_z_check,
  noise_x_check, **kwargs)\<close>: the four noise arguments are normalized in turn, so after
  the constructor's first part no noise field is \<^verbatim>\<open>None\<close>.
\<close>

definition initial ::
  "instruction list option \<Rightarrow> nat \<Rightarrow> real list option \<Rightarrow> real list option \<Rightarrow>
   real list option \<Rightarrow> real list option \<Rightarrow> params \<Rightarrow> stabilizer_model" where
  "initial circ n nc nd nz nx kwargs =
     \<lparr>circuit = (case circ of None \<Rightarrow> [] | Some c \<Rightarrow> c), rounds = n,
      qubits = [], data_qubits = [], z_check_qubits = [], x_check_qubits = [],
      noise_circuit = nc, noise_data = nd, noise_z_check = nz, noise_x_check = nx,
      code_params = kwargs\<rparr>"

definition init ::
  "string \<Rightarrow> instruction list option \<Rightarrow> nat \<Rightarrow> noise_arg \<Rightarrow> noise_arg \<Rightarrow>
   noise_arg \<Rightarrow> noise_arg \<Rightarrow> params \<Rightarrow> error + stabilizer_model" where
  "init code circ n noise_c noise_d noise_z noise_x kwargs =
     bind (normalize_noise 15 ''Stabilizer measurement noise takes 15 parameters'' noise_c) (\<lambda>nc.
     bind (normalize_noise 3 ''Data qubit noise takes 3 parameters'' noise_d) (\<lambda>nd.
     bind (normalize_noise 3 ''Z check qubit noise takes 3 parameters'' noise_z) (\<lambda>nz.
     bind (normalize_noise_x noise_z noise_x) (\<lambda>nx.
       build code (initial circ n (Some nc) (Some nd) (Some nz) (Some nx) kwargs)))))"

text \<open>Counting and selecting instructions of a circuit.\<close>

definition is_noise :: "instruction \<Rightarrow> bool" where
  "is_noise i \<longleftrightarrow> name i = ''PAULI_CHANNEL_1'' \<or> name i = ''PAULI_CHANNEL_2''"

definition without_noise :: "instruction list \<Rightarrow> instruction list" where
  "without_noise c = filter (\<lambda>i. \<not> is_noise i) c"

definition named :: "string \<Rightarrow> instruction list \<Rightarrow> instruction list" where
  "named g c = filter (\<lambda>i. name i = g) c"

fun qubit_targets :: "target list \<Rightarrow> int list" where
  "qubit_targets [] = []"
| "qubit_targets (Qubit q # ts) = q # qubit_targets ts"
| "qubit_targets (Rec k # ts) = qubit_targets ts"

definition circuit_qubits :: "instruction list \<Rightarrow> int set" where
  "circuit_qubits c = (\<Union>i \<in> set c. set (qubit_targets (targets i)))"

definition kwargs :: params where
  "kwargs = \<lparr>distance = None, scale = None, clist1 = None, clist2 = None, pos = None\<rparr>"

text \<open>
  The measurement record that a circuit produces: one entry for each qubit target of
  each measurement instruction (\<^verbatim>\<open>M\<close> or \<^verbatim>\<open>MR\<close>), in order; here, the qubits measured.
\<close>

definition measured :: "instruction list \<Rightarrow> int list" where
  "measured c =
     concat (map (\<lambda>i. qubit_targets (targets i))
               (filter (\<lambda>i. name i = ''M'' \<or> name i = ''MR'') c))"

text \<open>The names of the gate and noise instructions of a round.\<close>

definition round_gate_names :: "string set" where
  "round_gate_names = {''CNOT'', ''H'', ''PAULI_CHANNEL_1'', ''PAULI_CHANNEL_2''}"

text \<open>
  The state with every noise field \<^verbatim>\<open>None\<close>: noise disabled at every site.
\<close>

definition silence :: "stabilizer_model \<Rightarrow> stabilizer_model" where
  "silence s =
     s\<lparr>noise_circuit := None, noise_data := None, noise_z_check := None,
       noise_x_check := None\<rparr>"

definition noise_fields :: "stabilizer_model \<Rightarrow> real list option set" where
  "noise_fields s = {noise_circuit s, noise_data s, noise_z_check s, noise_x_check s}"

text \<open>
  The noise sites of the builders. A two-qubit channel belongs to a CNOT gate:
  \<open>channel_on p i\<close> is the channel with the probabilities \<open>p\<close> on the targets of the
  instruction \<open>i\<close>, and \<open>cnots_carry_channels p c\<close> says that the two-qubit channels of the
  circuit \<open>c\<close> are those of its CNOT gates, one for each gate and in the order of the
  gates. A one-qubit channel belongs to a group of qubits in a round:
  \<open>idle_noise_groups\<close> are the groups of the code family, the data and the Z check qubits
  in a round of the repetition code, the data, the Z check and the X check qubits in a
  round of the surface code, and none for the hypergraph product code, which builds no
  circuit.
\<close>

definition channel_on :: "real list \<Rightarrow> instruction \<Rightarrow> instruction" where
  "channel_on p i = Instr ''PAULI_CHANNEL_2'' (targets i) p"

definition cnots_carry_channels :: "real list \<Rightarrow> instruction list \<Rightarrow> bool" where
  "cnots_carry_channels p c \<longleftrightarrow>
     named ''PAULI_CHANNEL_2'' c = map (channel_on p) (named ''CNOT'' c)"


section \<open>Properties of \<open>classical_pcm\<close>\<close>

lemma set_one_length: "set_one v i = Inr v' \<Longrightarrow> length v' = length v"
  by (auto simp: set_one_def Let_def split: if_splits)

lemma set_one_entries: "set_one v i = Inr v' \<Longrightarrow> set v' \<subseteq> insert 1 (set v)"
  by (auto simp: set_one_def Let_def split: if_splits dest: subsetD [OF set_update_subset_insert])

lemma fill_row_length: "fill_row v ts = Inr v' \<Longrightarrow> length v' = length v"
  by (induction v ts rule: fill_row.induct)
     (auto split: sum.splits dest: set_one_length)

lemma fill_row_entries: "fill_row v ts = Inr v' \<Longrightarrow> set v' \<subseteq> insert 1 (set v)"
proof (induction v ts arbitrary: v' rule: fill_row.induct)
  case (3 v i rest)
  then obtain w where w: "set_one v i = Inr w" and r: "fill_row w rest = Inr v'"
    by (auto split: sum.splits)
  from "3.IH" [OF w r] set_one_entries [OF w] show ?case by auto
qed auto

lemma pcm_rows_length:
  "pcm_rows n ts = Inr H \<Longrightarrow> length H = count_list ts (Str ''C'')"
  by (induction ts arbitrary: H) (auto split: if_splits sum.splits)

lemma pcm_rows_entries:
  "pcm_rows n ts = Inr H \<Longrightarrow> row \<in> set H \<Longrightarrow> length row = n \<and> set row \<subseteq> {0, 1}"
proof (induction ts arbitrary: H)
  case Nil
  then show ?case by simp
next
  case (Cons t ts)
  show ?case
  proof (cases "t = Str ''C''")
    case False
    with Cons show ?thesis by simp
  next
    case True
    with Cons.prems(1) obtain v H' where v: "fill_row (replicate n 0) ts = Inr v"
      and H': "pcm_rows n ts = Inr H'" and H: "H = v # H'"
      by (auto split: sum.splits)
    from fill_row_length [OF v] fill_row_entries [OF v]
    have "length v = n \<and> set v \<subseteq> {0, 1}" by auto
    with Cons.IH [OF H'] Cons.prems(2) H show ?thesis by auto
  qed
qed

text \<open>
  Claim C7. For every code description accepted by \<open>classical_pcm\<close>, the returned matrix
  has exactly one row per \<^verbatim>\<open>"C"\<close> marker of the description, and every entry of the
  matrix is 0 or 1.
\<close>

theorem classical_pcm_rows_and_entries:
  assumes "classical_pcm clist = Inr H"
  shows "nd_len H = count_list clist (Str ''C'')
       \<and> length (nd_rows H) = count_list clist (Str ''C'')
       \<and> nd_entries H \<subseteq> {0, 1}"
proof -
  from assms obtain rows where rows: "pcm_rows (count_list clist (Str ''B'')) clist = Inr rows"
    and H: "H = np_array (count_list clist (Str ''B'')) rows"
    by (auto simp: classical_pcm_def Let_def split: sum.splits)
  from pcm_rows_length [OF rows] have len: "length rows = count_list clist (Str ''C'')" .
  from pcm_rows_entries [OF rows] have ent: "\<forall>row \<in> set rows. set row \<subseteq> {0, 1}" by blast
  show ?thesis
  proof (cases "rows = []")
    case True
    with H len show ?thesis by (simp add: np_array_def)
  next
    case False
    with H len ent show ?thesis by (auto simp: np_array_def)
  qed
qed

theorem classical_pcm_rows_and_entries_witness:
  "classical_pcm [Str ''B'', Str ''B'', Str ''C'', Num 0, Num 1, Str ''C'', Num 1]
     = Inr (Arr2 2 2 [[1, 1], [0, 1]])
   \<and> nd_len (Arr2 2 2 [[1, 1], [0, 1]])
       = count_list [Str ''B'', Str ''B'', Str ''C'', Num 0, Num 1, Str ''C'', Num 1] (Str ''C'')
   \<and> nd_entries (Arr2 2 2 [[1, 1], [0, 1]]) \<subseteq> {0, 1}"
proof -
  have e: "classical_pcm [Str ''B'', Str ''B'', Str ''C'', Num 0, Num 1, Str ''C'', Num 1]
     = Inr (Arr2 2 2 [[1, 1], [0, 1]])"
    by (simp add: classical_pcm_def np_array_def set_one_def Let_def)
  from classical_pcm_rows_and_entries [OF e] e show ?thesis by simp
qed

lemma set_one_has_one: "set_one v i = Inr v' \<Longrightarrow> 1 \<in> set v'"
  by (auto simp: set_one_def Let_def set_update_memI split: if_splits)

lemma set_one_error:
  "set_one v i = Inl e \<Longrightarrow>
     (e = IndexError \<or> e = OverflowError) \<and> (\<not> overflows_index_type i \<longrightarrow> e = IndexError)"
  by (auto simp: set_one_def Let_def split: if_splits)

lemma set_one_Inr:
  assumes "set_one v i = Inr w"
  shows "w = v[nat (column_of (length v) i) := 1]"
    and "0 \<le> column_of (length v) i" and "column_of (length v) i < int (length v)"
  using assms by (auto simp: set_one_def Let_def column_of_def add.commute split: if_splits)

lemma set_one_ok_iff:
  "(\<exists>v'. set_one v i = Inr v') \<longleftrightarrow> - int (length v) \<le> i \<and> i < int (length v)"
  by (auto simp: set_one_def Let_def)

lemma fill_row_has_one:
  "fill_row v ts = Inr v' \<Longrightarrow> 1 \<in> set v' \<longleftrightarrow> 1 \<in> set v \<or> index_run ts \<noteq> []"
proof (induction v ts arbitrary: v' rule: fill_row.induct)
  case (3 v i rest)
  then obtain w where w: "set_one v i = Inr w" and r: "fill_row w rest = Inr v'"
    by (auto split: sum.splits)
  from "3.IH" [OF w r] set_one_has_one [OF w] show ?case by simp
qed auto

lemma fill_row_error:
  "fill_row v ts = Inl e \<Longrightarrow>
     (e = IndexError \<or> e = OverflowError)
     \<and> ((\<forall>i \<in> set (index_run ts). \<not> overflows_index_type i) \<longrightarrow> e = IndexError)"
proof (induction v ts rule: fill_row.induct)
  case (3 v i rest)
  show ?case
  proof (cases "set_one v i")
    case (Inl e')
    with "3.prems" have "e' = e" by simp
    with set_one_error [OF Inl] show ?thesis by simp
  next
    case (Inr w)
    with "3.prems" have "fill_row w rest = Inl e" by simp
    from "3.IH" [OF Inr this] show ?thesis by simp
  qed
qed simp_all

text \<open>The row that the inner loop returns.\<close>

lemma fill_row_spec:
  "fill_row v ts = Inr v' \<Longrightarrow>
     v' = map (\<lambda>c. if int c \<in> column_of (length v) ` set (index_run ts) then 1 else v ! c)
            [0 ..< length v]"
proof (induction v ts arbitrary: v' rule: fill_row.induct)
  case (1 v)
  then show ?case by (simp add: map_nth)
next
  case (2 v s rest)
  then show ?case by (simp add: map_nth)
next
  case (3 v i rest)
  then obtain w where w: "set_one v i = Inr w" and r: "fill_row w rest = Inr v'"
    by (auto split: sum.splits)
  let ?k = "nat (column_of (length v) i)"
  note s = set_one_Inr [OF w]
  have lw: "length w = length v" using s(1) by simp
  have k: "\<And>c. int c = column_of (length v) i \<longleftrightarrow> c = ?k"
    using s(2) by auto
  from "3.IH" [OF w r]
  have "v' = map (\<lambda>c. if int c \<in> column_of (length v) ` set (index_run rest) then 1 else w ! c)
            [0 ..< length v]"
    by (simp add: lw)
  also have "\<dots> = map (\<lambda>c. if int c \<in> column_of (length v) ` set (index_run (Num i # rest))
                           then 1 else v ! c) [0 ..< length v]"
  proof (rule map_cong [OF refl])
    fix c
    assume "c \<in> set [0 ..< length v]"
    then have c: "c < length v" by simp
    have "w ! c = (if c = ?k then 1 else v ! c)"
      unfolding s(1) using c by (simp add: nth_list_update)
    then show "(if int c \<in> column_of (length v) ` set (index_run rest) then 1 else w ! c)
        = (if int c \<in> column_of (length v) ` set (index_run (Num i # rest)) then 1 else v ! c)"
      using k [of c] by auto
  qed
  finally show ?case .
qed

lemma fill_row_ok_iff:
  "(\<exists>v'. fill_row v ts = Inr v')
     \<longleftrightarrow> (\<forall>i \<in> set (index_run ts). - int (length v) \<le> i \<and> i < int (length v))"
proof (induction v ts rule: fill_row.induct)
  case (3 v i rest)
  show ?case
  proof (cases "set_one v i")
    case (Inl e)
    with set_one_ok_iff [of v i] show ?thesis by auto
  next
    case (Inr w)
    with set_one_ok_iff [of v i] "3.IH" [OF Inr] set_one_length [OF Inr]
    show ?thesis by auto
  qed
qed auto

lemma pcm_rows_error:
  "pcm_rows n ts = Inl e \<Longrightarrow>
     (e = IndexError \<or> e = OverflowError)
     \<and> ((\<forall>i \<in> set (concat (check_runs ts)). \<not> overflows_index_type i) \<longrightarrow> e = IndexError)"
proof (induction ts)
  case Nil
  then show ?case by simp
next
  case (Cons t ts)
  show ?case
  proof (cases "t = Str ''C''")
    case False
    with Cons show ?thesis by simp
  next
    case True
    show ?thesis
    proof (cases "fill_row (replicate n 0) ts")
      case (Inl e')
      with Cons.prems True have "e' = e" by simp
      with fill_row_error [OF Inl] True show ?thesis by simp
    next
      case (Inr v)
      with Cons.prems True have "pcm_rows n ts = Inl e"
        by (simp split: sum.splits)
      from Cons.IH [OF this] True show ?thesis by auto
    qed
  qed
qed

lemma pcm_rows_spec:
  "pcm_rows n ts = Inr H \<Longrightarrow> H = map (one_hot_row n) (check_runs ts)"
proof (induction ts arbitrary: H)
  case Nil
  then show ?case by simp
next
  case (Cons t ts)
  show ?case
  proof (cases "t = Str ''C''")
    case False
    with Cons show ?thesis by simp
  next
    case True
    with Cons.prems obtain v H' where v: "fill_row (replicate n 0) ts = Inr v"
      and H': "pcm_rows n ts = Inr H'" and H: "H = v # H'"
      by (auto split: sum.splits)
    from fill_row_spec [OF v] have "v = one_hot_row n (index_run ts)"
      by (simp add: one_hot_row_def cong: map_cong)
    with Cons.IH [OF H'] H True show ?thesis by simp
  qed
qed

lemma pcm_rows_ok_iff:
  "(\<exists>H. pcm_rows n ts = Inr H)
     \<longleftrightarrow> (\<forall>i \<in> set (concat (check_runs ts)). - int n \<le> i \<and> i < int n)"
proof (induction ts)
  case Nil
  then show ?case by simp
next
  case (Cons t ts)
  show ?case
  proof (cases "t = Str ''C''")
    case False
    with Cons show ?thesis by simp
  next
    case True
    have "(\<exists>H. pcm_rows n (t # ts) = Inr H)
        \<longleftrightarrow> (\<exists>v. fill_row (replicate n 0) ts = Inr v) \<and> (\<exists>H. pcm_rows n ts = Inr H)"
      using True by (auto split: sum.splits)
    with Cons.IH fill_row_ok_iff [of "replicate n 0" ts] True show ?thesis
      by auto
  qed
qed

lemma pcm_rows_has_one:
  "pcm_rows n ts = Inr H \<Longrightarrow>
     length H = length (check_runs ts)
     \<and> (\<forall>j < length H. 1 \<in> set (H ! j) \<longleftrightarrow> check_runs ts ! j \<noteq> [])"
proof (induction ts arbitrary: H)
  case Nil
  then show ?case by simp
next
  case (Cons t ts)
  show ?case
  proof (cases "t = Str ''C''")
    case False
    with Cons show ?thesis by simp
  next
    case True
    with Cons.prems obtain v H' where v: "fill_row (replicate n 0) ts = Inr v"
      and H': "pcm_rows n ts = Inr H'" and H: "H = v # H'"
      by (auto split: sum.splits)
    from fill_row_has_one [OF v] have "1 \<in> set v \<longleftrightarrow> index_run ts \<noteq> []" by simp
    with Cons.IH [OF H'] H True show ?thesis
      by (auto simp: nth_Cons split: nat.splits)
  qed
qed

text \<open>
  Claim C4, as stated, is false on the code: an index in \<open>[-num_bits, 0)\<close> is not
  rejected. With two bits, the index \<open>-1\<close> sets the last column.
\<close>

theorem classical_pcm_negative_index_accepted:
  "classical_pcm [Str ''B'', Str ''B'', Str ''C'', Num (- 1)] = Inr (Arr2 1 2 [[0, 1]])"
  by (simp add: classical_pcm_def np_array_def set_one_def Let_def)

text \<open>
  Claim C4, amended. \<open>classical_pcm\<close> fails exactly when some connection index (an
  integer in the run that follows a \<^verbatim>\<open>"C"\<close> marker) lies outside
  \<open>[-num_bits, num_bits)\<close>, where \<open>num_bits\<close> is the number of \<^verbatim>\<open>"B"\<close> markers. The
  error is IndexError or OverflowError, and it is IndexError unless a connection index
  lies in \<open>[2\<^sup>6\<^sup>3, 2\<^sup>6\<^sup>4)\<close>. Otherwise \<open>classical_pcm\<close> returns, and an
  index \<open>i\<close> in \<open>[-num_bits, 0)\<close> is not rejected: it sets column \<open>num_bits + i\<close> of its
  check's row, as an index \<open>i \<ge> 0\<close> sets column \<open>i\<close>.
\<close>

theorem classical_pcm_fails_iff_index_out_of_range:
  "if \<exists>i \<in> set (connection_indices clist).
        i < - int (count_list clist (Str ''B'')) \<or> int (count_list clist (Str ''B'')) \<le> i
   then \<exists>e. classical_pcm clist = Inl e \<and> (e = IndexError \<or> e = OverflowError)
          \<and> ((\<forall>i \<in> set (connection_indices clist). \<not> overflows_index_type i) \<longrightarrow> e = IndexError)
   else classical_pcm clist
          = Inr (np_array (count_list clist (Str ''B''))
                   (map (one_hot_row (count_list clist (Str ''B''))) (check_runs clist)))"
proof -
  let ?n = "count_list clist (Str ''B'')"
  let ?bad = "\<exists>i \<in> set (connection_indices clist). i < - int ?n \<or> int ?n \<le> i"
  have ok: "(\<exists>H. pcm_rows ?n clist = Inr H) \<longleftrightarrow> \<not> ?bad"
    unfolding pcm_rows_ok_iff connection_indices_def by (simp add: not_le not_less)
  show ?thesis
  proof (cases "pcm_rows ?n clist")
    case (Inl e)
    from pcm_rows_error [OF Inl]
    have "(e = IndexError \<or> e = OverflowError)
        \<and> ((\<forall>i \<in> set (connection_indices clist). \<not> overflows_index_type i) \<longrightarrow> e = IndexError)"
      by (simp add: connection_indices_def)
    moreover from Inl have "classical_pcm clist = Inl e"
      by (simp add: classical_pcm_def)
    moreover from Inl ok have ?bad by auto
    ultimately show ?thesis by (simp only: if_True) blast
  next
    case (Inr H)
    from pcm_rows_spec [OF Inr] Inr
    have "classical_pcm clist = Inr (np_array ?n (map (one_hot_row ?n) (check_runs clist)))"
      by (simp add: classical_pcm_def Let_def)
    moreover from Inr ok have "\<not> ?bad" by blast
    ultimately show ?thesis by (simp only: if_False)
  qed
qed

theorem classical_pcm_fails_iff_index_out_of_range_witness:
  "classical_pcm [Str ''B'', Str ''B'', Str ''C'', Num (2 ^ 63)] = Inl OverflowError
   \<and> classical_pcm [Str ''B'', Str ''B'', Str ''C'', Num 2] = Inl IndexError
   \<and> classical_pcm [Str ''B'', Str ''B'', Str ''C'', Num (- 3)] = Inl IndexError
   \<and> classical_pcm [Str ''B'', Str ''B'', Str ''C'', Num (- 1), Str ''C'', Num 0]
       = Inr (Arr2 2 2 [[0, 1], [1, 0]])"
proof -
  have a: "\<exists>i \<in> set (connection_indices [Str ''B'', Str ''B'', Str ''C'', Num 2]).
      i < - int (count_list [Str ''B'', Str ''B'', Str ''C'', Num 2] (Str ''B''))
      \<or> int (count_list [Str ''B'', Str ''B'', Str ''C'', Num 2] (Str ''B'')) \<le> i"
    by (simp add: connection_indices_def)
  have a': "\<forall>i \<in> set (connection_indices [Str ''B'', Str ''B'', Str ''C'', Num 2]).
      \<not> overflows_index_type i"
    by (simp add: connection_indices_def overflows_index_type_def)
  have b: "\<exists>i \<in> set (connection_indices [Str ''B'', Str ''B'', Str ''C'', Num (- 3)]).
      i < - int (count_list [Str ''B'', Str ''B'', Str ''C'', Num (- 3)] (Str ''B''))
      \<or> int (count_list [Str ''B'', Str ''B'', Str ''C'', Num (- 3)] (Str ''B'')) \<le> i"
    by (simp add: connection_indices_def)
  have b': "\<forall>i \<in> set (connection_indices [Str ''B'', Str ''B'', Str ''C'', Num (- 3)]).
      \<not> overflows_index_type i"
    by (simp add: connection_indices_def overflows_index_type_def)
  have c: "\<not> (\<exists>i \<in> set (connection_indices
        [Str ''B'', Str ''B'', Str ''C'', Num (- 1), Str ''C'', Num 0]).
      i < - int (count_list [Str ''B'', Str ''B'', Str ''C'', Num (- 1), Str ''C'', Num 0]
                  (Str ''B''))
      \<or> int (count_list [Str ''B'', Str ''B'', Str ''C'', Num (- 1), Str ''C'', Num 0]
                (Str ''B'')) \<le> i)"
    by (simp add: connection_indices_def)
  from classical_pcm_fails_iff_index_out_of_range
    [of "[Str ''B'', Str ''B'', Str ''C'', Num 2]"] a a'
  have 1: "classical_pcm [Str ''B'', Str ''B'', Str ''C'', Num 2] = Inl IndexError"
    by (simp only: if_True) blast
  from classical_pcm_fails_iff_index_out_of_range
    [of "[Str ''B'', Str ''B'', Str ''C'', Num (- 3)]"] b b'
  have 2: "classical_pcm [Str ''B'', Str ''B'', Str ''C'', Num (- 3)] = Inl IndexError"
    by (simp only: if_True) blast
  from classical_pcm_fails_iff_index_out_of_range
    [of "[Str ''B'', Str ''B'', Str ''C'', Num (- 1), Str ''C'', Num 0]"] c
  have "classical_pcm [Str ''B'', Str ''B'', Str ''C'', Num (- 1), Str ''C'', Num 0]
      = Inr (np_array (count_list [Str ''B'', Str ''B'', Str ''C'', Num (- 1), Str ''C'', Num 0]
                         (Str ''B''))
               (map (one_hot_row (count_list
                       [Str ''B'', Str ''B'', Str ''C'', Num (- 1), Str ''C'', Num 0] (Str ''B'')))
                  (check_runs [Str ''B'', Str ''B'', Str ''C'', Num (- 1), Str ''C'', Num 0])))"
    by (simp only: if_False)
  then have 3: "classical_pcm [Str ''B'', Str ''B'', Str ''C'', Num (- 1), Str ''C'', Num 0]
       = Inr (Arr2 2 2 [[0, 1], [1, 0]])"
    by (simp add: np_array_def one_hot_row_def column_of_def upt_rec)
  have 0: "classical_pcm [Str ''B'', Str ''B'', Str ''C'', Num (2 ^ 63)] = Inl OverflowError"
    by (simp add: classical_pcm_def set_one_def overflows_index_type_def Let_def)
  from 0 1 2 3 show ?thesis by (intro conjI)
qed

text \<open>
  Claim C5, as stated, is false on the code: a \<^verbatim>\<open>"C"\<close> marker that no integer follows
  gives an all-zero row.
\<close>

theorem classical_pcm_zero_row:
  "classical_pcm [Str ''B'', Str ''C''] = Inr (Arr2 1 1 [[0]])
   \<and> 1 \<notin> set (hd (nd_rows (Arr2 1 1 [[0]])))"
  by (simp add: classical_pcm_def np_array_def)

text \<open>
  Claim C5, amended. For every code description on which \<open>classical_pcm\<close> returns, the
  rows of the returned matrix correspond, in order, to the \<^verbatim>\<open>"C"\<close> markers, and a row
  contains a 1 exactly when at least one integer index follows its marker.
\<close>

theorem classical_pcm_row_has_one_iff:
  assumes "classical_pcm clist = Inr H"
  shows "length (nd_rows H) = length (check_runs clist)
       \<and> (\<forall>j < length (nd_rows H).
            1 \<in> set (nd_rows H ! j) \<longleftrightarrow> check_runs clist ! j \<noteq> [])"
proof -
  from assms obtain rows where rows: "pcm_rows (count_list clist (Str ''B'')) clist = Inr rows"
    and H: "H = np_array (count_list clist (Str ''B'')) rows"
    by (auto simp: classical_pcm_def Let_def split: sum.splits)
  have "nd_rows H = rows" using H by (simp add: np_array_def)
  with pcm_rows_has_one [OF rows] show ?thesis by simp
qed

theorem classical_pcm_row_has_one_iff_witness:
  "classical_pcm [Str ''B'', Str ''B'', Str ''C'', Num 1, Str ''C'']
     = Inr (Arr2 2 2 [[0, 1], [0, 0]])
   \<and> check_runs [Str ''B'', Str ''B'', Str ''C'', Num 1, Str ''C''] = [[1], []]
   \<and> 1 \<in> set (nd_rows (Arr2 2 2 [[0, 1], [0, 0]]) ! 0)
   \<and> 1 \<notin> set (nd_rows (Arr2 2 2 [[0, 1], [0, 0]]) ! 1)"
proof -
  have e: "classical_pcm [Str ''B'', Str ''B'', Str ''C'', Num 1, Str ''C'']
     = Inr (Arr2 2 2 [[0, 1], [0, 0]])"
    by (simp add: classical_pcm_def np_array_def set_one_def Let_def)
  have r: "check_runs [Str ''B'', Str ''B'', Str ''C'', Num 1, Str ''C''] = [[1], []]"
    by simp
  from classical_pcm_row_has_one_iff [OF e] e r show ?thesis by simp
qed

section \<open>The CSS commutation law of \<open>hypergraph_pcm\<close>\<close>

lemma dot_Nil [simp]: "dot [] ys = 0" "dot xs [] = 0"
  by (simp_all add: dot_def)

lemma dot_Cons [simp]: "dot (x # xs) (y # ys) = x * y + dot xs ys"
  by (simp add: dot_def)

lemma dot_append:
  "length u1 = length v1 \<Longrightarrow> dot (u1 @ u2) (v1 @ v2) = dot u1 v1 + dot u2 v2"
  by (simp add: dot_def)

lemma dot_scale: "dot (map (\<lambda>y. a * y) ys) (map (\<lambda>y. b * y) zs) = a * b * dot ys zs"
proof (induction ys arbitrary: zs)
  case Nil
  then show ?case by simp
next
  case (Cons y ys)
  then show ?case by (cases zs) (simp_all add: algebra_simps)
qed

lemma kron_row_Cons: "kron_row (x # xs) ys = map (\<lambda>y. x * y) ys @ kron_row xs ys"
  by (simp add: kron_row_def)

lemma kron_row_Nil [simp]: "kron_row [] ys = []"
  by (simp add: kron_row_def)

lemma length_kron_row [simp]: "length (kron_row xs ys) = length xs * length ys"
  by (induction xs) (simp_all add: kron_row_Cons)

lemma dot_kron_row:
  "length ys = length zs \<Longrightarrow>
     dot (kron_row xs ys) (kron_row ws zs) = dot xs ws * dot ys zs"
proof (induction xs arbitrary: ws)
  case Nil
  then show ?case by simp
next
  case (Cons x xs)
  show ?case
  proof (cases ws)
    case Nil
    then show ?thesis by simp
  next
    case (Cons w ws')
    have "dot (kron_row (x # xs) ys) (kron_row ws zs)
        = x * w * dot ys zs + dot (kron_row xs ys) (kron_row ws' zs)"
      using Cons Cons.prems by (simp add: kron_row_Cons dot_append dot_scale)
    with Cons.prems Cons.IH [of ws'] Cons show ?thesis
      by (simp add: algebra_simps)
  qed
qed

lemma length_unit_row [simp]: "length (unit_row n i) = n"
  by (simp add: unit_row_def)

lemma dot_unit_row_gen:
  "dot xs (map (\<lambda>j. if i = j then 1 else 0) [k ..< k + length xs])
     = (if k \<le> i \<and> i < k + length xs then xs ! (i - k) else 0)"
proof (induction xs arbitrary: k)
  case Nil
  then show ?case by simp
next
  case (Cons x xs)
  have "[k ..< k + length (x # xs)] = k # [Suc k ..< Suc k + length xs]"
    by (subst upt_rec) simp
  with Cons.IH [of "Suc k"] show ?case
    by (auto simp: nth_Cons' Suc_diff_le)
qed

lemma dot_unit_row: "length xs = n \<Longrightarrow> i < n \<Longrightarrow> dot xs (unit_row n i) = xs ! i"
  using dot_unit_row_gen [of xs i 0] by (simp add: unit_row_def)

lemma dot_commute: "dot xs ys = dot ys xs"
proof (induction xs arbitrary: ys)
  case Nil
  then show ?case by simp
next
  case (Cons x xs)
  then show ?case by (cases ys) (simp_all add: mult.commute)
qed

lemma unit_row_dot: "length xs = n \<Longrightarrow> i < n \<Longrightarrow> dot (unit_row n i) xs = xs ! i"
  by (simp add: dot_commute [of "unit_row n i"] dot_unit_row)

text \<open>The rows of two Kronecker products, side by side.\<close>

lemma zip_concat_map:
  "length xs = length ws \<Longrightarrow> length ys = length zs \<Longrightarrow>
     zip (concat (map (\<lambda>x. map (f x) ys) xs)) (concat (map (\<lambda>w. map (g w) zs) ws))
       = concat (map (\<lambda>(x, w). zip (map (f x) ys) (map (g w) zs)) (zip xs ws))"
  by (induction xs ws rule: list_induct2) simp_all

lemma kron_rows_member:
  assumes "length ys = length zs" and "length xs = length ws"
    and "(u, v) \<in> set (zip (concat (map (\<lambda>x. map (f x) ys) xs))
                           (concat (map (\<lambda>w. map (g w) zs) ws)))"
  obtains i k where "i < length xs" "k < length ys"
    and "u = f (xs ! i) (ys ! k)" and "v = g (ws ! i) (zs ! k)"
proof -
  from assms(3) obtain x w where xw: "(x, w) \<in> set (zip xs ws)"
    and uv: "(u, v) \<in> set (zip (map (f x) ys) (map (g w) zs))"
    unfolding zip_concat_map [OF assms(2,1)] by auto
  from xw obtain i where i: "i < length xs" "x = xs ! i" "w = ws ! i"
    using assms(2) by (auto simp: in_set_zip)
  from uv obtain k where k: "k < length ys" "u = f x (ys ! k)" "v = g w (zs ! k)"
    using assms(1) by (auto simp: in_set_zip)
  from i k show thesis by (auto intro: that)
qed

lemma length_concat_map_map [simp]:
  "length (concat (map (\<lambda>x. map (f x) ys) xs)) = length xs * length ys"
  by (induction xs) simp_all

lemma hypergraph_pcm_rows:
  "hypergraph_pcm (Arr2 r1 n1 A) (Arr2 r2 n2 B) =
     Inr (Arr2 (r1 * n2) (n1 * n2 + r1 * r2)
            (map2 (@)
               (concat (map (\<lambda>a. map (kron_row a) (map (unit_row n2) [0 ..< n2])) A))
               (concat (map (\<lambda>e. map (kron_row e)
                                 (map (\<lambda>j. map (\<lambda>row. row ! j) B) [0 ..< n2]))
                          (map (unit_row r1) [0 ..< r1])))),
          Arr2 (n1 * r2) (n1 * n2 + r1 * r2)
            (map2 (@)
               (concat (map (\<lambda>e. map (kron_row e) B) (map (unit_row n1) [0 ..< n1])))
               (concat (map (\<lambda>a. map (kron_row a) (map (unit_row r2) [0 ..< r2]))
                          (map (\<lambda>j. map (\<lambda>row. row ! j) A) [0 ..< n1])))))"
  by (simp add: hypergraph_pcm_def bind_def np_eye_def)

text \<open>
  A row of \<open>HX\<close> and a row of \<open>HZ\<close>, and their inner product: the two blocks contribute
  the same product of an entry of \<open>H1\<close> and an entry of \<open>H2\<close>.
\<close>

lemma hx_row_dot_hz_row:
  assumes A: "length A = r1" "list_all (\<lambda>row. length row = n1) A"
    and B: "length B = r2" "list_all (\<lambda>row. length row = n2) B"
    and i: "i < r1" and k: "k < n2" and j: "j < n1" and l: "l < r2"
  shows "dot (kron_row (A ! i) (unit_row n2 k)
               @ kron_row (unit_row r1 i) (map (\<lambda>row. row ! k) B))
             (kron_row (unit_row n1 j) (B ! l)
               @ kron_row (map (\<lambda>row. row ! j) A) (unit_row r2 l))
       = 2 * (A ! i ! j * (B ! l ! k))"
proof -
  from A i have la: "length (A ! i) = n1" by (simp add: list_all_length)
  from B l have lb: "length (B ! l) = n2" by (simp add: list_all_length)
  have "dot (kron_row (A ! i) (unit_row n2 k)) (kron_row (unit_row n1 j) (B ! l))
      = dot (A ! i) (unit_row n1 j) * dot (unit_row n2 k) (B ! l)"
    by (rule dot_kron_row) (simp add: lb)
  also have "\<dots> = A ! i ! j * (B ! l ! k)"
    using la lb j k by (simp add: dot_unit_row unit_row_dot)
  finally have left: "dot (kron_row (A ! i) (unit_row n2 k)) (kron_row (unit_row n1 j) (B ! l))
      = A ! i ! j * (B ! l ! k)" .
  have "dot (kron_row (unit_row r1 i) (map (\<lambda>row. row ! k) B))
            (kron_row (map (\<lambda>row. row ! j) A) (unit_row r2 l))
      = dot (unit_row r1 i) (map (\<lambda>row. row ! j) A) * dot (map (\<lambda>row. row ! k) B) (unit_row r2 l)"
    by (rule dot_kron_row) (simp add: B)
  also have "\<dots> = A ! i ! j * (B ! l ! k)"
    using A B i l by (simp add: dot_unit_row unit_row_dot)
  finally have right: "dot (kron_row (unit_row r1 i) (map (\<lambda>row. row ! k) B))
            (kron_row (map (\<lambda>row. row ! j) A) (unit_row r2 l))
      = A ! i ! j * (B ! l ! k)" .
  have "length (kron_row (A ! i) (unit_row n2 k)) = length (kron_row (unit_row n1 j) (B ! l))"
    by (simp add: la lb)
  from dot_append [OF this] left right show ?thesis by simp
qed

lemma hypergraph_pcm_product:
  assumes "matrix2 (Arr2 r1 n1 A)" and "matrix2 (Arr2 r2 n2 B)"
    and "hypergraph_pcm (Arr2 r1 n1 A) (Arr2 r2 n2 B) = Inr (HX, HZ)"
    and x: "x \<in> set (nd_rows HX)" and z: "z \<in> set (nd_rows HZ)"
  shows "dot x z mod 2 = 0"
proof -
  from assms(1) have A: "length A = r1" "list_all (\<lambda>row. length row = n1) A" by simp_all
  from assms(2) have B: "length B = r2" "list_all (\<lambda>row. length row = n2) B" by simp_all
  from assms(3) x obtain u v where uv: "x = u @ v"
    "(u, v) \<in> set (zip
       (concat (map (\<lambda>a. map (kron_row a) (map (unit_row n2) [0 ..< n2])) A))
       (concat (map (\<lambda>e. map (kron_row e)
                         (map (\<lambda>j. map (\<lambda>row. row ! j) B) [0 ..< n2]))
                  (map (unit_row r1) [0 ..< r1]))))"
    unfolding hypergraph_pcm_rows by auto
  from assms(3) z obtain s t where st: "z = s @ t"
    "(s, t) \<in> set (zip
       (concat (map (\<lambda>e. map (kron_row e) B) (map (unit_row n1) [0 ..< n1])))
       (concat (map (\<lambda>a. map (kron_row a) (map (unit_row r2) [0 ..< r2]))
                  (map (\<lambda>j. map (\<lambda>row. row ! j) A) [0 ..< n1]))))"
    unfolding hypergraph_pcm_rows by auto
  obtain i k where ik: "i < r1" "k < n2"
    "u = kron_row (A ! i) (unit_row n2 k)"
    "v = kron_row (unit_row r1 i) (map (\<lambda>row. row ! k) B)"
  proof (rule kron_rows_member [OF _ _ uv(2)])
    show "length (map (unit_row n2) [0 ..< n2])
        = length (map (\<lambda>j. map (\<lambda>row. row ! j) B) [0 ..< n2])" by simp
    show "length A = length (map (unit_row r1) [0 ..< r1])" using A by simp
  next
    fix i k
    assume "i < length A" "k < length (map (unit_row n2) [0 ..< n2])"
      "u = kron_row (A ! i) (map (unit_row n2) [0 ..< n2] ! k)"
      "v = kron_row (map (unit_row r1) [0 ..< r1] ! i)
             (map (\<lambda>j. map (\<lambda>row. row ! j) B) [0 ..< n2] ! k)"
    with A show thesis by (intro that [of i k]) simp_all
  qed
  obtain j l where jl: "j < n1" "l < r2"
    "s = kron_row (unit_row n1 j) (B ! l)"
    "t = kron_row (map (\<lambda>row. row ! j) A) (unit_row r2 l)"
  proof (rule kron_rows_member [OF _ _ st(2)])
    show "length B = length (map (unit_row r2) [0 ..< r2])" using B by simp
    show "length (map (unit_row n1) [0 ..< n1])
        = length (map (\<lambda>j. map (\<lambda>row. row ! j) A) [0 ..< n1])" by simp
  next
    fix j l
    assume "j < length (map (unit_row n1) [0 ..< n1])" "l < length B"
      "s = kron_row (map (unit_row n1) [0 ..< n1] ! j) (B ! l)"
      "t = kron_row (map (\<lambda>j. map (\<lambda>row. row ! j) A) [0 ..< n1] ! j)
             (map (unit_row r2) [0 ..< r2] ! l)"
    with B show thesis by (intro that [of j l]) simp_all
  qed
  from hx_row_dot_hz_row [OF A B ik(1,2) jl(1,2)]
  have "dot x z = 2 * (A ! i ! j * (B ! l ! k))"
    unfolding uv(1) st(1) ik(3,4) jl(3,4) .
  then show ?thesis by simp
qed

lemma hypergraph_pcm_shapes:
  assumes "matrix2 (Arr2 r1 n1 A)" and "matrix2 (Arr2 r2 n2 B)"
    and "hypergraph_pcm (Arr2 r1 n1 A) (Arr2 r2 n2 B) = Inr (HX, HZ)"
  shows "nd_len HX = length (nd_rows HX) \<and> nd_len HZ = length (nd_rows HZ)
       \<and> nd_len HX = r1 * n2 \<and> nd_len HZ = n1 * r2"
proof -
  from assms(1) have A: "length A = r1" by simp
  from assms(2) have B: "length B = r2" by simp
  from assms(3) [unfolded hypergraph_pcm_rows]
  have "nd_len HX = r1 * n2" "nd_len HZ = n1 * r2"
    "length (nd_rows HX) = r1 * n2" "length (nd_rows HZ) = n1 * r2"
    using A B by (auto simp del: map_map)
  then show ?thesis by simp
qed

subsection \<open>The entries of the returned matrices\<close>

lemma concat_map_map_nth:
  "a < length xs * length ys \<Longrightarrow>
     concat (map (\<lambda>x. map (f x) ys) xs) ! a
       = f (xs ! (a div length ys)) (ys ! (a mod length ys))"
proof (induction xs arbitrary: a)
  case Nil
  then show ?case by simp
next
  case (Cons x xs)
  show ?case
  proof (cases "a < length ys")
    case True
    then show ?thesis by (simp add: nth_append)
  next
    case False
    then have ge: "length ys \<le> a" by simp
    from Cons.prems have pos: "0 < length ys" by (cases ys) simp_all
    from ge Cons.prems have "a - length ys < length xs * length ys" by simp
    from Cons.IH [OF this] ge pos False show ?thesis
      by (simp add: nth_append le_div_geq le_mod_geq)
  qed
qed

lemma kron_row_nth:
  "c < length xs * length ys \<Longrightarrow>
     kron_row xs ys ! c = xs ! (c div length ys) * ys ! (c mod length ys)"
  unfolding kron_row_def by (rule concat_map_map_nth)

lemma unit_row_nth: "j < n \<Longrightarrow> unit_row n i ! j = identity_entry i j"
  by (simp add: unit_row_def identity_entry_def)

lemma dot_sum:
  "length xs = n \<Longrightarrow> length ys = n \<Longrightarrow> dot xs ys = (\<Sum>c < n. xs ! c * ys ! c)"
proof (induction xs arbitrary: ys n)
  case Nil
  then show ?case by simp
next
  case (Cons x xs)
  then obtain y ys' m where ys: "ys = y # ys'" and n: "n = Suc m"
    and l: "length xs = m" "length ys' = m"
    by (cases ys; cases n) auto
  from Cons.IH [OF l] show ?case
    unfolding ys n by (simp add: sum.lessThan_Suc_shift del: sum.lessThan_Suc)
qed

lemma div_less_of_less_mult: "(a :: nat) < r * n \<Longrightarrow> a div n < r"
  by (simp add: less_mult_imp_div_less)

lemma mod_less_of_less_mult: "(a :: nat) < r * n \<Longrightarrow> a mod n < n"
  by (cases "n = 0") simp_all

text \<open>Row \<open>a\<close> of \<open>HX\<close> and row \<open>b\<close> of \<open>HZ\<close>, as the code builds them.\<close>

lemma hx_row:
  assumes "length A = r1" and "a < r1 * n2"
  shows "map2 (@)
           (concat (map (\<lambda>x. map (kron_row x) (map (unit_row n2) [0 ..< n2])) A))
           (concat (map (\<lambda>e. map (kron_row e)
                             (map (\<lambda>j. map (\<lambda>row. row ! j) B) [0 ..< n2]))
                      (map (unit_row r1) [0 ..< r1]))) ! a
       = kron_row (A ! (a div n2)) (unit_row n2 (a mod n2))
         @ kron_row (unit_row r1 (a div n2)) (map (\<lambda>row. row ! (a mod n2)) B)"
proof -
  from assms(2) have d: "a div n2 < r1" and m: "a mod n2 < n2"
    by (rule div_less_of_less_mult, rule mod_less_of_less_mult)
  have 1: "concat (map (\<lambda>x. map (kron_row x) (map (unit_row n2) [0 ..< n2])) A) ! a
      = kron_row (A ! (a div n2)) (unit_row n2 (a mod n2))"
    using concat_map_map_nth [of a A "map (unit_row n2) [0 ..< n2]" kron_row] assms m
    by simp
  have 2: "concat (map (\<lambda>e. map (kron_row e)
                             (map (\<lambda>j. map (\<lambda>row. row ! j) B) [0 ..< n2]))
                      (map (unit_row r1) [0 ..< r1])) ! a
      = kron_row (unit_row r1 (a div n2)) (map (\<lambda>row. row ! (a mod n2)) B)"
    using concat_map_map_nth [of a "map (unit_row r1) [0 ..< r1]"
        "map (\<lambda>j. map (\<lambda>row. row ! j) B) [0 ..< n2]" kron_row] assms d m
    by simp
  show ?thesis
    using assms 1 2 by (simp del: map_map)
qed

lemma hz_row:
  assumes "length B = r2" and "b < n1 * r2"
  shows "map2 (@)
           (concat (map (\<lambda>e. map (kron_row e) B) (map (unit_row n1) [0 ..< n1])))
           (concat (map (\<lambda>x. map (kron_row x) (map (unit_row r2) [0 ..< r2]))
                      (map (\<lambda>j. map (\<lambda>row. row ! j) A) [0 ..< n1]))) ! b
       = kron_row (unit_row n1 (b div r2)) (B ! (b mod r2))
         @ kron_row (map (\<lambda>row. row ! (b div r2)) A) (unit_row r2 (b mod r2))"
proof -
  from assms(2) have d: "b div r2 < n1" and m: "b mod r2 < r2"
    by (rule div_less_of_less_mult, rule mod_less_of_less_mult)
  have 1: "concat (map (\<lambda>e. map (kron_row e) B) (map (unit_row n1) [0 ..< n1])) ! b
      = kron_row (unit_row n1 (b div r2)) (B ! (b mod r2))"
    using concat_map_map_nth [of b "map (unit_row n1) [0 ..< n1]" B kron_row] assms d
    by simp
  have 2: "concat (map (\<lambda>x. map (kron_row x) (map (unit_row r2) [0 ..< r2]))
                      (map (\<lambda>j. map (\<lambda>row. row ! j) A) [0 ..< n1])) ! b
      = kron_row (map (\<lambda>row. row ! (b div r2)) A) (unit_row r2 (b mod r2))"
    using concat_map_map_nth [of b "map (\<lambda>j. map (\<lambda>row. row ! j) A) [0 ..< n1]"
        "map (unit_row r2) [0 ..< r2]" kron_row] assms d m
    by simp
  show ?thesis
    using assms 1 2 by (simp del: map_map)
qed

lemma hx_row_entry:
  assumes A: "length A = r1" "list_all (\<lambda>row. length row = n1) A"
    and B: "length B = r2"
    and a: "a < r1 * n2" and c: "c < n1 * n2 + r1 * r2"
  shows "(kron_row (A ! (a div n2)) (unit_row n2 (a mod n2))
          @ kron_row (unit_row r1 (a div n2)) (map (\<lambda>row. row ! (a mod n2)) B)) ! c
       = block_hx (Arr2 r1 n1 A) (Arr2 r2 n2 B) a c"
proof -
  from a have d: "a div n2 < r1" and m: "a mod n2 < n2"
    by (rule div_less_of_less_mult, rule mod_less_of_less_mult)
  from A d have la: "length (A ! (a div n2)) = n1" by (simp add: list_all_length)
  show ?thesis
  proof (cases "c < n1 * n2")
    case True
    then have "c mod n2 < n2" by (rule mod_less_of_less_mult)
    with True show ?thesis
      by (simp add: nth_append la kron_row_nth unit_row_nth kron_entry_def)
  next
    case False
    with c have c': "c - n1 * n2 < r1 * r2" by simp
    then have "(c - n1 * n2) div r2 < r1" "(c - n1 * n2) mod r2 < r2"
      by (rule div_less_of_less_mult, rule mod_less_of_less_mult)
    with False c' B show ?thesis
      by (simp add: nth_append la kron_row_nth unit_row_nth kron_entry_def)
  qed
qed

lemma hz_row_entry:
  assumes A: "length A = r1"
    and B: "length B = r2" "list_all (\<lambda>row. length row = n2) B"
    and b: "b < n1 * r2" and c: "c < n1 * n2 + r1 * r2"
  shows "(kron_row (unit_row n1 (b div r2)) (B ! (b mod r2))
          @ kron_row (map (\<lambda>row. row ! (b div r2)) A) (unit_row r2 (b mod r2))) ! c
       = block_hz (Arr2 r1 n1 A) (Arr2 r2 n2 B) b c"
proof -
  from b have d: "b div r2 < n1" and m: "b mod r2 < r2"
    by (rule div_less_of_less_mult, rule mod_less_of_less_mult)
  from B m have lb: "length (B ! (b mod r2)) = n2" by (simp add: list_all_length)
  show ?thesis
  proof (cases "c < n1 * n2")
    case True
    then have "c div n2 < n1" "c mod n2 < n2"
      by (rule div_less_of_less_mult, rule mod_less_of_less_mult)
    with True show ?thesis
      by (simp add: nth_append lb kron_row_nth unit_row_nth kron_entry_def)
  next
    case False
    with c have c': "c - n1 * n2 < r1 * r2" by simp
    then have "(c - n1 * n2) div r2 < r1" "(c - n1 * n2) mod r2 < r2"
      by (rule div_less_of_less_mult, rule mod_less_of_less_mult)
    with False c' A show ?thesis
      by (simp add: nth_append lb kron_row_nth unit_row_nth kron_entry_def)
  qed
qed

text \<open>
  Claim C1. For all binary two-dimensional matrices \<open>H1\<close> of shape \<open>(r1, n1)\<close> and \<open>H2\<close> of
  shape \<open>(r2, n2)\<close>, \<open>hypergraph_pcm\<close> returns a pair \<open>(HX, HZ)\<close> of well-formed matrices with
  \<open>r1 \<cdot> n2\<close> and \<open>n1 \<cdot> r2\<close> rows and the same number \<open>n1 \<cdot> n2 + r1 \<cdot> r2\<close> of columns; every
  entry of \<open>HX\<close> is that of \<open>[H1 \<otimes> I | I \<otimes> H2\<^sup>T]\<close> and every entry of \<open>HZ\<close> that of
  \<open>[I \<otimes> H2 | H1\<^sup>T \<otimes> I]\<close>; and every entry of \<open>HX \<cdot> HZ\<^sup>T\<close>, the sum over all the columns of
  the products of the entries of a row of \<open>HX\<close> and a row of \<open>HZ\<close>, is 0 modulo 2.
  (numpy computes the Kronecker products with \<^verbatim>\<open>np.eye\<close> in floating point, where the
  entries 0 and 1 and their products are exact.)
\<close>

theorem hypergraph_pcm_css_commutation:
  assumes "matrix2 H1" and "matrix2 H2"
    and "nd_entries H1 \<subseteq> {0, 1}" and "nd_entries H2 \<subseteq> {0, 1}"
    and "shape2 H1 = Inr (r1, n1)" and "shape2 H2 = Inr (r2, n2)"
  shows "\<exists>X Z. hypergraph_pcm H1 H2
                 = Inr (Arr2 (r1 * n2) (n1 * n2 + r1 * r2) X,
                        Arr2 (n1 * r2) (n1 * n2 + r1 * r2) Z)
           \<and> matrix2 (Arr2 (r1 * n2) (n1 * n2 + r1 * r2) X)
           \<and> matrix2 (Arr2 (n1 * r2) (n1 * n2 + r1 * r2) Z)
           \<and> (\<forall>a < r1 * n2. \<forall>c < n1 * n2 + r1 * r2. X ! a ! c = block_hx H1 H2 a c)
           \<and> (\<forall>b < n1 * r2. \<forall>c < n1 * n2 + r1 * r2. Z ! b ! c = block_hz H1 H2 b c)
           \<and> (\<forall>a < r1 * n2. \<forall>b < n1 * r2.
                 (\<Sum>c < n1 * n2 + r1 * r2. X ! a ! c * Z ! b ! c) mod 2 = 0)
           \<and> mult_transpose_mod2 (Arr2 (r1 * n2) (n1 * n2 + r1 * r2) X)
                                  (Arr2 (n1 * r2) (n1 * n2 + r1 * r2) Z)
               = replicate (r1 * n2) (replicate (n1 * r2) 0)"
proof -
  from assms(1,5) obtain A where H1: "H1 = Arr2 r1 n1 A" by (cases H1) simp_all
  from assms(2,6) obtain B where H2: "H2 = Arr2 r2 n2 B" by (cases H2) simp_all
  note m = assms(1,2) [unfolded H1 H2]
  from m(1) have A: "length A = r1" "list_all (\<lambda>row. length row = n1) A" by simp_all
  from m(2) have B: "length B = r2" "list_all (\<lambda>row. length row = n2) B" by simp_all
  define N where "N = n1 * n2 + r1 * r2"
  define X where "X = map2 (@)
      (concat (map (\<lambda>x. map (kron_row x) (map (unit_row n2) [0 ..< n2])) A))
      (concat (map (\<lambda>e. map (kron_row e) (map (\<lambda>j. map (\<lambda>row. row ! j) B) [0 ..< n2]))
                 (map (unit_row r1) [0 ..< r1])))"
  define Z where "Z = map2 (@)
      (concat (map (\<lambda>e. map (kron_row e) B) (map (unit_row n1) [0 ..< n1])))
      (concat (map (\<lambda>x. map (kron_row x) (map (unit_row r2) [0 ..< r2]))
                 (map (\<lambda>j. map (\<lambda>row. row ! j) A) [0 ..< n1])))"
  have r: "hypergraph_pcm (Arr2 r1 n1 A) (Arr2 r2 n2 B) = Inr (Arr2 (r1 * n2) N X, Arr2 (n1 * r2) N Z)"
    unfolding X_def Z_def N_def by (rule hypergraph_pcm_rows)
  have lenX: "length X = r1 * n2" and lenZ: "length Z = n1 * r2"
    unfolding X_def Z_def using A B by (simp_all del: map_map)
  have rowX: "X ! a = kron_row (A ! (a div n2)) (unit_row n2 (a mod n2))
         @ kron_row (unit_row r1 (a div n2)) (map (\<lambda>row. row ! (a mod n2)) B)"
    if "a < r1 * n2" for a
    unfolding X_def by (rule hx_row [OF A(1) that])
  have rowZ: "Z ! b = kron_row (unit_row n1 (b div r2)) (B ! (b mod r2))
         @ kron_row (map (\<lambda>row. row ! (b div r2)) A) (unit_row r2 (b mod r2))"
    if "b < n1 * r2" for b
    unfolding Z_def by (rule hz_row [OF B(1) that])
  have entX: "X ! a ! c = block_hx (Arr2 r1 n1 A) (Arr2 r2 n2 B) a c"
    if "a < r1 * n2" "c < N" for a c
    unfolding rowX [OF that(1)]
    by (rule hx_row_entry [OF A B(1) that(1) that(2) [unfolded N_def]])
  have entZ: "Z ! b ! c = block_hz (Arr2 r1 n1 A) (Arr2 r2 n2 B) b c"
    if "b < n1 * r2" "c < N" for b c
    unfolding rowZ [OF that(1)]
    by (rule hz_row_entry [OF A(1) B that(1) that(2) [unfolded N_def]])
  have rlX: "length (X ! a) = N" if "a < r1 * n2" for a
  proof -
    from that have "a div n2 < r1" by (rule div_less_of_less_mult)
    with A have "length (A ! (a div n2)) = n1" by (simp add: list_all_length)
    then show ?thesis unfolding rowX [OF that] N_def using B(1) by simp
  qed
  have rlZ: "length (Z ! b) = N" if "b < n1 * r2" for b
  proof -
    from that have "b mod r2 < r2" by (rule mod_less_of_less_mult)
    with B have "length (B ! (b mod r2)) = n2" by (simp add: list_all_length)
    then show ?thesis unfolding rowZ [OF that] N_def using A(1) by simp
  qed
  have mX: "matrix2 (Arr2 (r1 * n2) N X)"
    using lenX rlX by (simp add: list_all_length)
  have mZ: "matrix2 (Arr2 (n1 * r2) N Z)"
    using lenZ rlZ by (simp add: list_all_length)
  have d: "dot x z mod 2 = 0" if "x \<in> set X" "z \<in> set Z" for x z
    using hypergraph_pcm_product [OF m r] that by simp
  have prod: "(\<Sum>c < N. X ! a ! c * Z ! b ! c) mod 2 = 0"
    if "a < r1 * n2" "b < n1 * r2" for a b
  proof -
    from that lenX lenZ have "X ! a \<in> set X" "Z ! b \<in> set Z" by simp_all
    then have "dot (X ! a) (Z ! b) mod 2 = 0" by (rule d)
    with dot_sum [OF rlX [OF that(1)] rlZ [OF that(2)]] show ?thesis by simp
  qed
  have "mult_transpose_mod2 (Arr2 (r1 * n2) N X) (Arr2 (n1 * r2) N Z)
      = map (\<lambda>x. map (\<lambda>z. 0) Z) X"
    unfolding mult_transpose_mod2_def using d by (simp cong: map_cong)
  also have "\<dots> = replicate (r1 * n2) (replicate (n1 * r2) 0)"
    by (simp add: map_replicate_const lenX lenZ)
  finally have mt: "mult_transpose_mod2 (Arr2 (r1 * n2) N X) (Arr2 (n1 * r2) N Z)
      = replicate (r1 * n2) (replicate (n1 * r2) 0)" .
  from r mX mZ entX entZ prod mt show ?thesis
    unfolding H1 H2 N_def by blast
qed

theorem hypergraph_pcm_css_commutation_witness:
  "matrix2 (Arr2 1 2 [[1, 1]]) \<and> matrix2 (Arr2 2 3 [[1, 1, 0], [0, 1, 1]])
   \<and> nd_entries (Arr2 1 2 [[1, 1]]) \<subseteq> {0, 1}
   \<and> nd_entries (Arr2 2 3 [[1, 1, 0], [0, 1, 1]]) \<subseteq> {0, 1}
   \<and> shape2 (Arr2 1 2 [[1, 1]]) = Inr (1, 2)
   \<and> shape2 (Arr2 2 3 [[1, 1, 0], [0, 1, 1]]) = Inr (2, 3)
   \<and> hypergraph_pcm (Arr2 1 2 [[1, 1]]) (Arr2 2 3 [[1, 1, 0], [0, 1, 1]])
       = Inr (Arr2 3 8 [[1, 0, 0, 1, 0, 0, 1, 0],
                        [0, 1, 0, 0, 1, 0, 1, 1],
                        [0, 0, 1, 0, 0, 1, 0, 1]],
              Arr2 4 8 [[1, 1, 0, 0, 0, 0, 1, 0],
                        [0, 1, 1, 0, 0, 0, 0, 1],
                        [0, 0, 0, 1, 1, 0, 1, 0],
                        [0, 0, 0, 0, 1, 1, 0, 1]])
   \<and> (\<exists>X Z. hypergraph_pcm (Arr2 1 2 [[1, 1]]) (Arr2 2 3 [[1, 1, 0], [0, 1, 1]])
                = Inr (Arr2 (1 * 3) (2 * 3 + 1 * 2) X, Arr2 (2 * 2) (2 * 3 + 1 * 2) Z)
        \<and> matrix2 (Arr2 (1 * 3) (2 * 3 + 1 * 2) X)
        \<and> matrix2 (Arr2 (2 * 2) (2 * 3 + 1 * 2) Z)
        \<and> (\<forall>a < 1 * 3. \<forall>c < 2 * 3 + 1 * 2.
              X ! a ! c = block_hx (Arr2 1 2 [[1, 1]]) (Arr2 2 3 [[1, 1, 0], [0, 1, 1]]) a c)
        \<and> (\<forall>b < 2 * 2. \<forall>c < 2 * 3 + 1 * 2.
              Z ! b ! c = block_hz (Arr2 1 2 [[1, 1]]) (Arr2 2 3 [[1, 1, 0], [0, 1, 1]]) b c)
        \<and> (\<forall>a < 1 * 3. \<forall>b < 2 * 2.
              (\<Sum>c < 2 * 3 + 1 * 2. X ! a ! c * Z ! b ! c) mod 2 = 0)
        \<and> mult_transpose_mod2 (Arr2 (1 * 3) (2 * 3 + 1 * 2) X) (Arr2 (2 * 2) (2 * 3 + 1 * 2) Z)
            = replicate (1 * 3) (replicate (2 * 2) 0))"
proof -
  have a: "matrix2 (Arr2 1 2 [[1, 1]])" by simp
  have b: "matrix2 (Arr2 2 3 [[1, 1, 0], [0, 1, 1]])" by simp
  have c: "nd_entries (Arr2 1 2 [[1, 1]]) \<subseteq> {0, 1}" by simp
  have d: "nd_entries (Arr2 2 3 [[1, 1, 0], [0, 1, 1]]) \<subseteq> {0, 1}" by simp
  have e: "shape2 (Arr2 1 2 [[1, 1]]) = Inr (1, 2)" by simp
  have f: "shape2 (Arr2 2 3 [[1, 1, 0], [0, 1, 1]]) = Inr (2, 3)" by simp
  have u: "[0 ..< 3] = [0, 1, 2]" "[0 ..< 2] = [0, 1]" "[0 ..< 1] = [0]"
    by (simp_all add: upt_rec)
  have g: "hypergraph_pcm (Arr2 1 2 [[1, 1]]) (Arr2 2 3 [[1, 1, 0], [0, 1, 1]])
       = Inr (Arr2 3 8 [[1, 0, 0, 1, 0, 0, 1, 0],
                        [0, 1, 0, 0, 1, 0, 1, 1],
                        [0, 0, 1, 0, 0, 1, 0, 1]],
              Arr2 4 8 [[1, 1, 0, 0, 0, 0, 1, 0],
                        [0, 1, 1, 0, 0, 0, 0, 1],
                        [0, 0, 0, 1, 1, 0, 1, 0],
                        [0, 0, 0, 0, 1, 1, 0, 1]])"
    by (simp add: hypergraph_pcm_rows unit_row_def kron_row_def u)
  from hypergraph_pcm_css_commutation [OF a b c d e f] a b c d e f g
  show ?thesis by (intro conjI)
qed

section \<open>Properties of \<open>intersecting_edges\<close>\<close>












































section \<open>Properties of the constructor\<close>

lemma bind_Inr [simp]: "bind (Inr x) f = f x"
  by (simp add: bind_def)

lemma bind_Inl [simp]: "bind (Inl e) f = Inl e"
  by (simp add: bind_def)

lemma bind_eq_Inr: "bind m f = Inr y \<longleftrightarrow> (\<exists>x. m = Inr x \<and> f x = Inr y)"
  by (cases m) simp_all

lemma lookup_Some [simp]: "lookup (Some x) = Inr x"
  by (simp add: lookup_def)

lemma lookup_None [simp]: "lookup None = Inl KeyError"
  by (simp add: lookup_def)

lemma normalize_noise_Inr:
  "normalize_noise n msg a = Inr v \<Longrightarrow> length v = n"
  by (cases a) (auto simp: normalize_noise_def split: if_splits)

lemma normalize_noise_x_Inr:
  "normalize_noise_x z a = Inr v \<Longrightarrow> length v = 3"
  by (cases a) (auto simp: normalize_noise_x_def split: if_splits)

text \<open>A constructor call that returns has run the \<^verbatim>\<open>match\<close> statement with all four
  noise fields set.\<close>

lemma init_Inr:
  assumes "init code circ n nc nd nz nx kw = Inr s"
  obtains vc vd vz vx where
    "build code (initial circ n (Some vc) (Some vd) (Some vz) (Some vx) kw) = Inr s"
    "length vc = 15" "length vd = 3" "length vz = 3" "length vx = 3"
proof -
  from assms obtain vc vd vz vx where
    "normalize_noise 15 ''Stabilizer measurement noise takes 15 parameters'' nc = Inr vc"
    "normalize_noise 3 ''Data qubit noise takes 3 parameters'' nd = Inr vd"
    "normalize_noise 3 ''Z check qubit noise takes 3 parameters'' nz = Inr vz"
    "normalize_noise_x nz nx = Inr vx"
    "build code (initial circ n (Some vc) (Some vd) (Some vz) (Some vx) kw) = Inr s"
    unfolding init_def bind_eq_Inr by blast
  then show thesis
    by (intro that [of vc vd vz vx])
       (auto dest: normalize_noise_Inr normalize_noise_x_Inr)
qed

lemma parse_code_repetition [simp]:
  "parse_code ''repetition_code'' = Inr (''repetition_code'', None)"
  by (simp add: parse_code_def)

lemma build_repetition:
  assumes "distance (code_params s) = Some d"
  shows "build ''repetition_code'' s =
     Inr ((assign_repetition_roles s d)
       \<lparr>circuit :=
          circuit s
          @ [gate ''M'' (step2 (drop 1 (py_range (2 * d + 1))))]
          @ concat (replicate (rounds s) (repetition_round (assign_repetition_roles s d) d))
          @ repetition_final (assign_repetition_roles s d) d\<rparr>)"
  using assms
  by (simp add: build_def repetition_code_def assign_repetition_roles_def)

lemma py_range_7: "py_range 7 = [0, 1, 2, 3, 4, 5, 6]"
  by (simp add: py_range_def upto_rec1)

lemma name_simps [simp]:
  "name (gate g qs) = g" "name (channel g qs ps) = g"
  "name (detector ls) = ''DETECTOR''" "name (observable_include ls) = ''OBSERVABLE_INCLUDE''"
  by (simp_all add: gate_def channel_def detector_def observable_include_def)

lemma named_append [simp]: "named g (xs @ ys) = named g xs @ named g ys"
  by (simp add: named_def)

lemma named_Cons:
  "named g (i # xs) = (if name i = g then i # named g xs else named g xs)"
  by (simp add: named_def)

lemma named_Nil [simp]: "named g [] = []"
  by (simp add: named_def)

lemma named_concat: "named g (concat xss) = concat (map (named g) xss)"
  by (induction xss) simp_all

lemma named_qubit_noise:
  "g \<noteq> ''PAULI_CHANNEL_1'' \<Longrightarrow> named g (qubit_noise noise qs) = []"
  by (cases noise) (simp_all add: qubit_noise_def named_Cons)

lemma named_repetition_check:
  "g \<noteq> ''PAULI_CHANNEL_2'' \<Longrightarrow> g \<noteq> ''CNOT'' \<Longrightarrow> named g (repetition_check noise m) = []"
  by (cases noise) (simp_all add: repetition_check_def named_Cons)

lemma named_detectors:
  "named ''DETECTOR'' (map (\<lambda>k. detector (f k)) ks) = map (\<lambda>k. detector (f k)) ks"
  "g \<noteq> ''DETECTOR'' \<Longrightarrow> named g (map (\<lambda>k. detector (f k)) ks) = []"
  by (induction ks) (simp_all add: named_Cons)

lemma named_repetition_round:
  "named ''DETECTOR'' (repetition_round s d)
     = map (\<lambda>k. detector [- 1 - k, - 1 - k - d]) (indices (z_check_qubits s))"
  "named ''OBSERVABLE_INCLUDE'' (repetition_round s d) = []"
  by (simp_all add: repetition_round_def named_concat named_repetition_check
        named_qubit_noise named_detectors named_Cons)

lemma named_repetition_final:
  "named ''DETECTOR'' (repetition_final s d)
     = map (\<lambda>k. detector [- 1 - k, - 2 - k, - 2 - k - d]) (indices (z_check_qubits s))"
  "named ''OBSERVABLE_INCLUDE'' (repetition_final s d) = [observable_include [- 1]]"
  by (simp_all add: repetition_final_def named_detectors named_Cons)

lemma length_indices [simp]: "length (indices xs) = length xs"
  by (simp add: indices_def)

lemma length_concat_replicate [simp]:
  "length (concat (replicate n xs)) = n * length xs"
  by (induction n) simp_all

text \<open>
  Claim C6. Building a repetition code with \<open>distance = 3\<close> and \<open>rounds = 2\<close> emits
  exactly 9 detector instructions (3 in each of the 2 rounds and 3 after the final
  measurement of the data qubits), and the one logical-observable declaration
  references exactly one offset of the measurement record, \<open>-1\<close>. This holds for all
  noise arguments with which the constructor returns.
\<close>

theorem repetition_code_3_2_detectors_and_observable:
  assumes "init ''repetition_code'' None 2 nc nd nz nx kw = Inr s"
    and "distance kw = Some 3"
  shows "length (named ''DETECTOR'' (circuit s)) = 9
       \<and> length (named ''DETECTOR''
            (repetition_round (assign_repetition_roles s 3) 3)) = 3
       \<and> named ''OBSERVABLE_INCLUDE'' (circuit s)
            = [Instr ''OBSERVABLE_INCLUDE'' [Rec (- 1)] [0]]"
proof -
  from assms(1) obtain vc vd vz vx where
    b: "build ''repetition_code'' (initial None 2 (Some vc) (Some vd) (Some vz) (Some vx) kw)
          = Inr s"
    by (rule init_Inr)
  let ?s0 = "initial None 2 (Some vc) (Some vd) (Some vz) (Some vx) kw"
  have d: "distance (code_params ?s0) = Some 3"
    using assms(2) by (simp add: initial_def)
  have z: "z_check_qubits (assign_repetition_roles ?s0 3) = [1, 3, 5]"
    by (simp add: assign_repetition_roles_def py_range_7)
  have s: "s = (assign_repetition_roles ?s0 3)
       \<lparr>circuit :=
          circuit ?s0
          @ [gate ''M'' (step2 (drop 1 (py_range (2 * 3 + 1))))]
          @ concat (replicate (rounds ?s0) (repetition_round (assign_repetition_roles ?s0 3) 3))
          @ repetition_final (assign_repetition_roles ?s0 3) 3\<rparr>"
    using b unfolding build_repetition [OF d] by simp
  have z': "z_check_qubits (assign_repetition_roles s 3) = [1, 3, 5]"
    by (simp add: assign_repetition_roles_def py_range_7)
  have r: "rounds ?s0 = 2" "circuit ?s0 = []"
    by (simp_all add: initial_def)
  have "named ''DETECTOR'' (circuit s)
      = concat (replicate 2 (map (\<lambda>k. detector [- 1 - k, - 1 - k - 3]) (indices [1, 3, 5 :: int])))
        @ map (\<lambda>k. detector [- 1 - k, - 2 - k, - 2 - k - 3]) (indices [1, 3, 5 :: int])"
    unfolding s
    by (simp add: r named_concat named_repetition_round named_repetition_final z named_Cons)
  then have "length (named ''DETECTOR'' (circuit s)) = 9"
    by simp
  moreover have "length (named ''DETECTOR''
            (repetition_round (assign_repetition_roles s 3) 3)) = 3"
    by (simp add: named_repetition_round z')
  moreover have "named ''OBSERVABLE_INCLUDE'' (circuit s)
            = [Instr ''OBSERVABLE_INCLUDE'' [Rec (- 1)] [0]]"
    unfolding s
    by (simp add: r named_concat named_repetition_round named_repetition_final named_Cons
          observable_include_def)
  ultimately show ?thesis by simp
qed

lemma init_scalar:
  "init code circ n (Scalar a) (Scalar b) (Scalar c) (Scalar d) kw
     = build code (initial circ n (Some (replicate 15 (a / 15))) (Some (replicate 3 (b / 3)))
         (Some (replicate 3 (c / 3))) (Some (replicate 3 (d / 3))) kw)"
  by (simp add: init_def normalize_noise_def normalize_noise_x_def)

lemma code_params_initial [simp]: "code_params (initial circ n nc nd nz nx kw) = kw"
  by (simp add: initial_def)

theorem repetition_code_3_2_detectors_and_observable_witness:
  "\<exists>s. init ''repetition_code'' None 2 (Scalar 0) (Scalar 0) (Scalar 0) (Scalar 0)
          (kwargs\<lparr>distance := Some 3\<rparr>) = Inr s
       \<and> distance (kwargs\<lparr>distance := Some 3\<rparr>) = Some 3
       \<and> length (named ''DETECTOR'' (circuit s)) = 9
       \<and> named ''OBSERVABLE_INCLUDE'' (circuit s) = [Instr ''OBSERVABLE_INCLUDE'' [Rec (- 1)] [0]]"
proof -
  have d: "distance (kwargs\<lparr>distance := Some 3\<rparr>) = Some 3" by simp
  obtain s where s: "init ''repetition_code'' None 2 (Scalar 0) (Scalar 0) (Scalar 0) (Scalar 0)
          (kwargs\<lparr>distance := Some 3\<rparr>) = Inr s"
    unfolding init_scalar by (simp add: build_repetition)
  from repetition_code_3_2_detectors_and_observable [OF s d] s d show ?thesis by blast
qed

subsection \<open>Qubits of the repetition code\<close>

lemma set_step2: "set (step2 xs) \<subseteq> set xs"
  by (induction xs rule: step2.induct) auto

lemma step2_upto_even:
  "step2 [a .. a + 2 * int k - 1] = map (\<lambda>i. a + 2 * int i) [0 ..< k]"
proof (induction k arbitrary: a)
  case 0
  then show ?case by simp
next
  case (Suc k)
  have e: "a + 2 * int (Suc k) - 1 = (a + 2) + 2 * int k - 1" by simp
  have "[a .. (a + 2) + 2 * int k - 1] = a # [a + 1 .. (a + 2) + 2 * int k - 1]"
    by (rule upto_rec1) simp
  moreover have "[a + 1 .. (a + 2) + 2 * int k - 1]
      = (a + 1) # [a + 1 + 1 .. (a + 2) + 2 * int k - 1]"
    by (rule upto_rec1) simp
  moreover have "a + 1 + 1 = a + 2" by simp
  ultimately
  have "[a .. a + 2 * int (Suc k) - 1] = a # (a + 1) # [a + 2 .. (a + 2) + 2 * int k - 1]"
    unfolding e by simp
  then have "step2 [a .. a + 2 * int (Suc k) - 1]
      = a # map (\<lambda>i. (a + 2) + 2 * int i) [0 ..< k]"
    by (simp only: step2.simps Suc.IH)
  also have "\<dots> = map (\<lambda>i. a + 2 * int i) [0 ..< Suc k]"
    by (simp add: upt_conv_Cons map_Suc_upt [symmetric] del: upt_Suc)
  finally show ?case .
qed

lemma repetition_z_checks:
  assumes "0 \<le> d"
  shows "step2 (drop 1 (py_range (2 * d + 1))) = map (\<lambda>i. 1 + 2 * int i) [0 ..< nat d]"
proof -
  have "drop 1 (py_range (2 * d + 1)) = [1 .. 1 + 2 * int (nat d) - 1]"
    using assms by (simp add: py_range_def upto_rec1 [of 0])
  then show ?thesis by (simp only: step2_upto_even)
qed

lemma repetition_z_checks_Suc:
  "0 \<le> d \<Longrightarrow>
     step2 (drop (Suc 0) (py_range (2 * d + 1))) = map (\<lambda>i. 1 + 2 * int i) [0 ..< nat d]"
  using repetition_z_checks [of d] by simp

lemma qubit_targets_Qubit [simp]: "qubit_targets (map Qubit qs) = qs"
  by (induction qs) simp_all

lemma qubit_targets_Rec [simp]: "qubit_targets (map Rec ks) = []"
  by (induction ks) simp_all

lemma circuit_qubits_append [simp]:
  "circuit_qubits (xs @ ys) = circuit_qubits xs \<union> circuit_qubits ys"
  by (auto simp: circuit_qubits_def)

lemma circuit_qubits_Nil [simp]: "circuit_qubits [] = {}"
  by (simp add: circuit_qubits_def)

lemma circuit_qubits_Cons:
  "circuit_qubits (i # xs) = set (qubit_targets (targets i)) \<union> circuit_qubits xs"
  by (simp add: circuit_qubits_def)

lemma circuit_qubits_concat_replicate:
  "circuit_qubits (concat (replicate n xs)) \<subseteq> circuit_qubits xs"
  by (induction n) auto

lemma circuit_qubits_gate [simp]:
  "circuit_qubits (gate g qs # xs) = set qs \<union> circuit_qubits xs"
  by (simp add: circuit_qubits_Cons gate_def)

lemma circuit_qubits_detectors [simp]:
  "circuit_qubits (map (\<lambda>k. detector (f k)) ks) = {}"
  by (induction ks) (simp_all add: circuit_qubits_Cons detector_def)

lemma circuit_qubits_observable [simp]:
  "circuit_qubits (observable_include ls # xs) = circuit_qubits xs"
  by (simp add: circuit_qubits_Cons observable_include_def)

lemma circuit_qubits_qubit_noise: "circuit_qubits (qubit_noise noise qs) \<subseteq> set qs"
  by (cases noise) (simp_all add: qubit_noise_def circuit_qubits_Cons channel_def)

lemma circuit_qubits_repetition_check:
  "circuit_qubits (repetition_check noise m) = {m - 1, m, m + 1}"
  by (cases noise) (auto simp: repetition_check_def circuit_qubits_Cons channel_def gate_def)

lemma circuit_qubits_concat_map:
  "circuit_qubits (concat (map f xs)) = (\<Union>x \<in> set xs. circuit_qubits (f x))"
  by (induction xs) simp_all

lemma circuit_qubits_repetition_round:
  "circuit_qubits (repetition_round s d)
     \<subseteq> (\<Union>m \<in> set (z_check_qubits s). {m - 1, m, m + 1})
       \<union> set (data_qubits s) \<union> set (z_check_qubits s)"
  unfolding repetition_round_def
  using circuit_qubits_qubit_noise [of "noise_data s" "data_qubits s"]
    circuit_qubits_qubit_noise [of "noise_z_check s" "z_check_qubits s"]
  by (auto simp: circuit_qubits_concat_map circuit_qubits_repetition_check)

lemma circuit_qubits_repetition_final:
  "circuit_qubits (repetition_final s d) = set (data_qubits s)"
  by (simp add: repetition_final_def)

text \<open>
  Claim C10. For every distance \<open>d \<ge> 1\<close>, every qubit that an instruction of the
  repetition-code circuit addresses (the neighbours \<open>m - 1\<close> and \<open>m + 1\<close> of a Z check
  \<open>m\<close>, the noise sites, the measurements) lies in \<open>[0, 2d]\<close>, the \<open>2d + 1\<close> allocated
  qubits.
\<close>

theorem repetition_code_qubits_in_range:
  assumes "init ''repetition_code'' None n nc nd nz nx kw = Inr s"
    and "distance kw = Some d" and "1 \<le> d"
  shows "circuit_qubits (circuit s) \<subseteq> {0 .. 2 * d} \<and> set (qubits s) = {0 .. 2 * d}"
proof -
  from assms(1) obtain vc vd vz vx where
    b: "build ''repetition_code'' (initial None n (Some vc) (Some vd) (Some vz) (Some vx) kw)
          = Inr s"
    by (rule init_Inr)
  let ?s0 = "initial None n (Some vc) (Some vd) (Some vz) (Some vx) kw"
  let ?s1 = "assign_repetition_roles ?s0 d"
  have dk: "distance (code_params ?s0) = Some d"
    using assms(2) by simp
  have s: "s = ?s1
       \<lparr>circuit :=
          circuit ?s0
          @ [gate ''M'' (step2 (drop 1 (py_range (2 * d + 1))))]
          @ concat (replicate (rounds ?s0) (repetition_round ?s1 d))
          @ repetition_final ?s1 d\<rparr>"
    using b unfolding build_repetition [OF dk] by simp
  have c0: "circuit ?s0 = []" by (simp add: initial_def)
  have q: "set (py_range (2 * d + 1)) = {0 .. 2 * d}"
    by (simp add: py_range_def)
  have z: "z_check_qubits ?s1 = map (\<lambda>i. 1 + 2 * int i) [0 ..< nat d]"
    using assms(3) by (simp add: assign_repetition_roles_def repetition_z_checks_Suc)
  have zr: "\<And>m. m \<in> set (z_check_qubits ?s1) \<Longrightarrow> 1 \<le> m \<and> m \<le> 2 * d - 1"
    unfolding z using assms(3) by auto
  have dr: "set (data_qubits ?s1) \<subseteq> {0 .. 2 * d}"
    using set_step2 [of "py_range (2 * d + 1)"] q
    by (simp add: assign_repetition_roles_def)
  have zs: "set (z_check_qubits ?s1) \<subseteq> {0 .. 2 * d}"
    using zr by fastforce
  have nb: "(\<Union>m \<in> set (z_check_qubits ?s1). {m - 1, m, m + 1}) \<subseteq> {0 .. 2 * d}"
    using zr by fastforce
  have rnd: "circuit_qubits (repetition_round ?s1 d) \<subseteq> {0 .. 2 * d}"
    using circuit_qubits_repetition_round [of ?s1 d] dr zs nb by blast
  have rep: "circuit_qubits (concat (replicate (rounds ?s0) (repetition_round ?s1 d)))
      \<subseteq> {0 .. 2 * d}"
    using circuit_qubits_concat_replicate rnd by blast
  have m0: "circuit_qubits [gate ''M'' (step2 (drop 1 (py_range (2 * d + 1))))] \<subseteq> {0 .. 2 * d}"
    using zs by (simp add: assign_repetition_roles_def)
  have fin: "circuit_qubits (repetition_final ?s1 d) \<subseteq> {0 .. 2 * d}"
    using dr by (simp add: circuit_qubits_repetition_final)
  have "circuit_qubits (circuit s) \<subseteq> {0 .. 2 * d}"
    unfolding s using m0 rep fin by (simp add: c0)
  moreover have "set (qubits s) = {0 .. 2 * d}"
    unfolding s using q by (simp add: assign_repetition_roles_def)
  ultimately show ?thesis by simp
qed

theorem repetition_code_qubits_in_range_witness:
  "\<exists>s. init ''repetition_code'' None 2 (Scalar 0) (Scalar 0) (Scalar 0) (Scalar 0)
          (kwargs\<lparr>distance := Some 3\<rparr>) = Inr s
       \<and> distance (kwargs\<lparr>distance := Some 3\<rparr>) = Some 3 \<and> (1 :: int) \<le> 3
       \<and> circuit_qubits (circuit s) \<subseteq> {0 .. 2 * 3}
       \<and> set (qubits s) = {0 .. 2 * 3}"
proof -
  have d: "distance (kwargs\<lparr>distance := Some 3\<rparr>) = Some 3" by simp
  have l: "(1 :: int) \<le> 3" by simp
  obtain s where s: "init ''repetition_code'' None 2 (Scalar 0) (Scalar 0) (Scalar 0) (Scalar 0)
          (kwargs\<lparr>distance := Some 3\<rparr>) = Inr s"
    unfolding init_scalar by (simp add: build_repetition)
  from repetition_code_qubits_in_range [OF s d l] s d l show ?thesis by blast
qed

subsection \<open>The surface code\<close>

lemma build_surface:
  assumes "parse_code code = Inr (''surface_code'', subcode)"
    and "scale (code_params s) = Some (R, C)"
  shows "build code s =
     (if R mod 2 \<noteq> 0 \<and> C mod 2 \<noteq> 0
      then surface_code (assign_surface_roles s R C) subcode
      else Inl (AssertionError ''Scale of the surface code must be odd.''))"
  using assms by (simp add: build_def)

lemma init_Inl_or_build:
  "(\<exists>e. init code circ n nc nd nz nx kw = Inl e)
   \<or> (\<exists>vc vd vz vx. init code circ n nc nd nz nx kw
         = build code (initial circ n (Some vc) (Some vd) (Some vz) (Some vx) kw))"
  unfolding init_def
  by (cases "normalize_noise 15 ''Stabilizer measurement noise takes 15 parameters'' nc";
      cases "normalize_noise 3 ''Data qubit noise takes 3 parameters'' nd";
      cases "normalize_noise 3 ''Z check qubit noise takes 3 parameters'' nz";
      cases "normalize_noise_x nz nx") (simp_all, blast)

text \<open>
  Claim C8. Surface-code construction fails for every scale \<open>(R, C)\<close> in which a
  dimension is even: the constructor raises, and once the noise arguments are accepted
  the error is the assertion on the scale. So a construction that returns, with the
  roles assigned, has both dimensions odd.
\<close>

theorem surface_code_rejects_even_scale:
  assumes "parse_code code = Inr (''surface_code'', subcode)"
    and "scale kw = Some (R, C)"
  shows "(even R \<or> even C \<longrightarrow>
            (\<exists>e. init code circ n nc nd nz nx kw = Inl e)
            \<and> build code (initial circ n vc vd vz vx kw)
                = Inl (AssertionError ''Scale of the surface code must be odd.''))
       \<and> (\<forall>s. init code circ n nc nd nz nx kw = Inr s \<longrightarrow> odd R \<and> odd C)"
proof -
  have b: "\<And>vc vd vz vx. even R \<or> even C \<Longrightarrow>
     build code (initial circ n vc vd vz vx kw)
       = Inl (AssertionError ''Scale of the surface code must be odd.'')"
    using assms by (subst build_surface [where R = R and C = C]) (auto simp: even_iff_mod_2_eq_zero)
  have f: "even R \<or> even C \<Longrightarrow> \<exists>e. init code circ n nc nd nz nx kw = Inl e"
    using init_Inl_or_build [of code circ n nc nd nz nx kw] b by auto
  from f have "\<And>s. init code circ n nc nd nz nx kw = Inr s \<Longrightarrow> odd R \<and> odd C"
    by fastforce
  with b f show ?thesis by blast
qed

lemma parse_code_z_memory:
  "parse_code ''surface_code:z_memory'' = Inr (''surface_code'', Some ''z_memory'')"
  by (simp add: parse_code_def)

lemma parse_code_x_memory:
  "parse_code ''surface_code:x_memory'' = Inr (''surface_code'', Some ''x_memory'')"
  by (simp add: parse_code_def)

lemma sites_3_3:
  "sites 3 3 = [(0, 0), (0, 1), (0, 2), (1, 0), (1, 1), (1, 2), (2, 0), (2, 1), (2, 2)]"
  by (simp add: sites_def py_range_def upto_rec1)

lemma surface_roles_3_3:
  "data_qubits (assign_surface_roles s 3 3) = [0, 2, 4, 6, 8]"
  "z_check_qubits (assign_surface_roles s 3 3) = [1, 7]"
  "x_check_qubits (assign_surface_roles s 3 3) = [3, 5]"
  by (simp_all add: assign_surface_roles_def sites_3_3 is_data_site_def
        is_z_check_site_def is_x_check_site_def)

lemma indices_2: "indices [a, b] = [0, 1]"
  by (simp add: indices_def upt_rec)

lemma surface_code_3_3_returns:
  assumes "scale (code_params s) = Some (3, 3)"
    and "subcode = Some ''z_memory'' \<or> subcode = Some ''x_memory''"
  shows "\<exists>s'. surface_code (assign_surface_roles s 3 3) subcode = Inr s'"
proof -
  have "scale (code_params (assign_surface_roles s 3 3)) = Some (3, 3)"
    using assms(1) by (simp add: assign_surface_roles_def)
  moreover have "\<exists>ds. surface_final_detectors (assign_surface_roles s 3 3) 3 3 subcode = Inr ds"
    using assms(2)
    by (auto simp: surface_final_detectors_def surface_roles_3_3 indices_2 Let_def)
  ultimately show ?thesis
    by (auto simp: surface_code_def)
qed

theorem surface_code_rejects_even_scale_witness:
  "parse_code ''surface_code:z_memory'' = Inr (''surface_code'', Some ''z_memory'')
   \<and> scale (kwargs\<lparr>scale := Some (4, 3)\<rparr>) = Some (4, 3)
   \<and> init ''surface_code:z_memory'' None 1 (Scalar 0) (Scalar 0) (Scalar 0) (Scalar 0)
         (kwargs\<lparr>scale := Some (4, 3)\<rparr>)
       = Inl (AssertionError ''Scale of the surface code must be odd.'')
   \<and> (\<exists>s. init ''surface_code:z_memory'' None 1 (Scalar 0) (Scalar 0) (Scalar 0) (Scalar 0)
              (kwargs\<lparr>scale := Some (3, 3)\<rparr>) = Inr s)
   \<and> odd (3 :: int)"
proof -
  note p = parse_code_z_memory
  have k4: "scale (kwargs\<lparr>scale := Some (4, 3)\<rparr>) = Some (4, 3)" by simp
  have k3: "scale (kwargs\<lparr>scale := Some (3, 3)\<rparr>) = Some (3, 3)" by simp
  have e: "even (4 :: int) \<or> even (3 :: int)" by simp
  from surface_code_rejects_even_scale [OF p k4, THEN conjunct1, THEN mp, OF e, THEN conjunct2,
      of None 1 "Some (replicate 15 (0 / 15))" "Some (replicate 3 (0 / 3))"
         "Some (replicate 3 (0 / 3))" "Some (replicate 3 (0 / 3))"]
  have a: "init ''surface_code:z_memory'' None 1 (Scalar 0) (Scalar 0) (Scalar 0) (Scalar 0)
         (kwargs\<lparr>scale := Some (4, 3)\<rparr>)
       = Inl (AssertionError ''Scale of the surface code must be odd.'')"
    unfolding init_scalar .
  let ?s0 = "initial None 1 (Some (replicate 15 (0 / 15))) (Some (replicate 3 (0 / 3)))
         (Some (replicate 3 (0 / 3))) (Some (replicate 3 (0 / 3)))
         (kwargs\<lparr>scale := Some (3, 3)\<rparr>)"
  have "\<exists>s. surface_code (assign_surface_roles ?s0 3 3) (Some ''z_memory'') = Inr s"
    by (rule surface_code_3_3_returns) simp_all
  then obtain s where "surface_code (assign_surface_roles ?s0 3 3) (Some ''z_memory'') = Inr s" ..
  moreover have "build ''surface_code:z_memory'' ?s0
      = surface_code (assign_surface_roles ?s0 3 3) (Some ''z_memory'')"
    by (subst build_surface [OF p, where R = 3 and C = 3]) simp_all
  ultimately have s: "init ''surface_code:z_memory'' None 1 (Scalar 0) (Scalar 0) (Scalar 0)
         (Scalar 0) (kwargs\<lparr>scale := Some (3, 3)\<rparr>) = Inr s"
    unfolding init_scalar by simp
  from surface_code_rejects_even_scale [OF p k3, THEN conjunct2, THEN spec, THEN mp, OF s]
  have "odd (3 :: int)" by simp
  with p k4 a s show ?thesis by blast
qed

subsection \<open>The order of measurements and detectors in a surface-code round\<close>


lemma round_gate_names_mem [simp]:
  "''CNOT'' \<in> round_gate_names" "''H'' \<in> round_gate_names"
  "''PAULI_CHANNEL_1'' \<in> round_gate_names" "''PAULI_CHANNEL_2'' \<in> round_gate_names"
  "''M'' \<notin> round_gate_names" "''MR'' \<notin> round_gate_names"
  "''DETECTOR'' \<notin> round_gate_names"
  by (simp_all add: round_gate_names_def)

lemma names_qubit_noise:
  "i \<in> set (qubit_noise noise qs) \<Longrightarrow> name i \<in> round_gate_names"
  by (cases noise) (auto simp: qubit_noise_def)

lemma names_gate_noise:
  "i \<in> set (gate_noise noise pairs) \<Longrightarrow> name i \<in> round_gate_names"
  by (cases noise) (auto simp: gate_noise_def)

lemma names_cnots:
  "i \<in> set (map (gate ''CNOT'') pairs) \<Longrightarrow> name i \<in> round_gate_names"
  by auto

lemma names_surface_site:
  assumes "i \<in> set (surface_site noise R C site)"
  shows "name i \<in> round_gate_names"
proof -
  obtain row col where site: "site = (row, col)" by (cases site)
  let ?q = "row * C + col"
  consider
    (z) "i \<in> set (map (gate ''CNOT'') (z_check_pairs R C row ?q))
           \<or> i \<in> set (gate_noise noise (z_check_pairs R C row ?q))"
    | (x) "i = gate ''H'' [?q] \<or> i \<in> set (map (gate ''CNOT'') (x_check_pairs R C col ?q))
           \<or> i \<in> set (gate_noise noise (x_check_pairs R C col ?q))"
    using assms unfolding site surface_site_def Let_def
    by (simp split: if_splits)
  then show ?thesis
  proof cases
    case z
    then show ?thesis using names_cnots names_gate_noise by blast
  next
    case x
    then show ?thesis using names_cnots names_gate_noise name_simps(1) round_gate_names_mem(2)
      by metis
  qed
qed

lemma names_surface_gates:
  assumes "i \<in> set (concat (map (surface_site (noise_circuit s) R C) (sites R C))
               @ qubit_noise (noise_data s) (data_qubits s)
               @ qubit_noise (noise_z_check s) (z_check_qubits s)
               @ qubit_noise (noise_x_check s) (x_check_qubits s))"
  shows "name i \<in> round_gate_names"
proof -
  from assms consider
    (a) site where "i \<in> set (surface_site (noise_circuit s) R C site)"
    | (b) "i \<in> set (qubit_noise (noise_data s) (data_qubits s))"
    | (c) "i \<in> set (qubit_noise (noise_z_check s) (z_check_qubits s))"
    | (d) "i \<in> set (qubit_noise (noise_x_check s) (x_check_qubits s))"
    by auto
  then show ?thesis
    by cases (erule names_surface_site names_qubit_noise)+
qed

lemma measured_append [simp]: "measured (xs @ ys) = measured xs @ measured ys"
  by (simp add: measured_def)

lemma measured_no_measurement:
  assumes "\<And>i. i \<in> set c \<Longrightarrow> name i \<in> round_gate_names"
  shows "measured c = []"
proof -
  have "filter (\<lambda>i. name i = ''M'' \<or> name i = ''MR'') c = []"
    unfolding filter_empty_conv
  proof
    fix i
    assume "i \<in> set c"
    then have "name i \<in> round_gate_names" by (rule assms)
    then show "\<not> (name i = ''M'' \<or> name i = ''MR'')"
      using round_gate_names_mem(5,6) by metis
  qed
  then show ?thesis by (simp add: measured_def)
qed

lemma measured_gate_M [simp]:
  "measured (gate ''MR'' qs # c) = qs @ measured c"
  "measured (gate ''M'' qs # c) = qs @ measured c"
  by (simp_all add: measured_def gate_def)

lemma measured_detectors [simp]: "measured (round_detectors checks back) = []"
  by (simp add: measured_def round_detectors_def filter_empty_conv)

lemma measured_Nil [simp]: "measured [] = []"
  by (simp add: measured_def)
text \<open>
  Claim C3, as stated, is false on the code for \<^verbatim>\<open>x_memory\<close>, where the X checks are
  the active basis: on the 3 by 3 lattice (Z checks 1 and 7, X checks 3 and 5) the round
  measures the Z checks first, then the X checks, then emits the detectors, and
  measures nothing after them.
\<close>

theorem surface_x_memory_measures_z_checks_first:
  "z_check_qubits (assign_surface_roles (initial None 1 None None None None kwargs) 3 3)
     = [1, 7]
   \<and> x_check_qubits (assign_surface_roles (initial None 1 None None None None kwargs) 3 3)
     = [3, 5]
   \<and> detect_changes (assign_surface_roles (initial None 1 None None None None kwargs) 3 3)
       (Some ''x_memory'')
     = [gate ''MR'' [1, 7], gate ''MR'' [3, 5], detector [- 1, - 5], detector [- 2, - 6]]
   \<and> detect_changes (assign_surface_roles (initial None 1 None None None None kwargs) 3 3)
       (Some ''x_memory'')
     \<noteq> [gate ''MR'' [3, 5], detector [- 1, - 5], detector [- 2, - 6], gate ''MR'' [1, 7]]"
  by (simp add: surface_roles_3_3 detect_changes_def round_detectors_def indices_2 gate_def)

text \<open>
  Claim C3, amended. In every surface-code round, after the gates and the noise
  channels, the builder first measures-and-resets the Z checks, whichever basis is
  active. For \<^verbatim>\<open>z_memory\<close> it then emits one detector per Z check \<open>k\<close>, with the offsets
  \<open>-1-k\<close> and \<open>-1-k-(number of X checks plus Z checks)\<close>, and afterwards
  measures-and-resets the X checks. For \<^verbatim>\<open>x_memory\<close> it measures-and-resets the X
  checks directly after the Z checks, and then emits one detector per X check \<open>k\<close>
  with the same two offsets. In both, a round measures the Z checks and then the X
  checks, once each, so the second offset is one round back.
\<close>

theorem surface_round_measures_then_detects:
  "(\<exists>gates. surface_round s R C subcode = gates @ detect_changes s subcode
       \<and> name ` set gates \<subseteq> round_gate_names)
   \<and> detect_changes s (Some ''z_memory'')
       = [gate ''MR'' (z_check_qubits s)]
         @ map (\<lambda>k. detector [- 1 - k,
                  - 1 - k - (int (length (x_check_qubits s)) + int (length (z_check_qubits s)))])
             (map int [0 ..< length (z_check_qubits s)])
         @ [gate ''MR'' (x_check_qubits s)]
   \<and> detect_changes s (Some ''x_memory'')
       = [gate ''MR'' (z_check_qubits s), gate ''MR'' (x_check_qubits s)]
         @ map (\<lambda>k. detector [- 1 - k,
                  - 1 - k - (int (length (x_check_qubits s)) + int (length (z_check_qubits s)))])
             (map int [0 ..< length (x_check_qubits s)])
   \<and> measured (surface_round s R C (Some ''z_memory'')) = z_check_qubits s @ x_check_qubits s
   \<and> measured (surface_round s R C (Some ''x_memory'')) = z_check_qubits s @ x_check_qubits s"
proof -
  define gates where
    "gates = concat (map (surface_site (noise_circuit s) R C) (sites R C))
               @ qubit_noise (noise_data s) (data_qubits s)
               @ qubit_noise (noise_z_check s) (z_check_qubits s)
               @ qubit_noise (noise_x_check s) (x_check_qubits s)"
  have n: "name ` set gates \<subseteq> round_gate_names"
    unfolding gates_def using names_surface_gates [of _ s R C] by blast
  have r: "\<And>sub. surface_round s R C sub = gates @ detect_changes s sub"
    by (simp add: surface_round_def gates_def)
  have m: "measured gates = []"
    unfolding gates_def by (rule measured_no_measurement) (rule names_surface_gates)
  have z: "detect_changes s (Some ''z_memory'')
       = [gate ''MR'' (z_check_qubits s)]
         @ map (\<lambda>k. detector [- 1 - k,
                  - 1 - k - (int (length (x_check_qubits s)) + int (length (z_check_qubits s)))])
             (map int [0 ..< length (z_check_qubits s)])
         @ [gate ''MR'' (x_check_qubits s)]"
    by (simp add: detect_changes_def round_detectors_def indices_def)
  have x: "detect_changes s (Some ''x_memory'')
       = [gate ''MR'' (z_check_qubits s), gate ''MR'' (x_check_qubits s)]
         @ map (\<lambda>k. detector [- 1 - k,
                  - 1 - k - (int (length (x_check_qubits s)) + int (length (z_check_qubits s)))])
             (map int [0 ..< length (x_check_qubits s)])"
    by (simp add: detect_changes_def round_detectors_def indices_def)
  have mz: "measured (detect_changes s (Some ''z_memory'')) = z_check_qubits s @ x_check_qubits s"
    by (simp add: detect_changes_def)
  have mx: "measured (detect_changes s (Some ''x_memory'')) = z_check_qubits s @ x_check_qubits s"
    by (simp add: detect_changes_def)
  from n r have "\<exists>gates. surface_round s R C subcode = gates @ detect_changes s subcode
       \<and> name ` set gates \<subseteq> round_gate_names"
    by blast
  moreover have "measured (surface_round s R C (Some ''z_memory''))
      = z_check_qubits s @ x_check_qubits s"
    by (simp add: r m mz)
  moreover have "measured (surface_round s R C (Some ''x_memory''))
      = z_check_qubits s @ x_check_qubits s"
    by (simp add: r m mx)
  ultimately show ?thesis using z x by (intro conjI)
qed

theorem surface_round_measures_then_detects_witness:
  "measured (surface_round
       (assign_surface_roles (initial None 1 None None None None kwargs) 3 3) 3 3
       (Some ''x_memory''))
     = [1, 7, 3, 5]"
  using surface_round_measures_then_detects
    [of "assign_surface_roles (initial None 1 None None None None kwargs) 3 3" 3 3 None]
  by (simp add: surface_roles_3_3)


subsection \<open>Zero noise and disabled noise\<close>

lemma without_noise_append [simp]:
  "without_noise (xs @ ys) = without_noise xs @ without_noise ys"
  by (simp add: without_noise_def)

lemma without_noise_Nil [simp]: "without_noise [] = []"
  by (simp add: without_noise_def)


lemma without_noise_replicate [simp]:
  "without_noise (concat (replicate n xs)) = concat (replicate n (without_noise xs))"
  by (induction n) simp_all

lemma is_noise_simps [simp]:
  "\<not> is_noise (gate ''CNOT'' qs)" "\<not> is_noise (gate ''H'' qs)"
  "\<not> is_noise (gate ''M'' qs)" "\<not> is_noise (gate ''MR'' qs)" "\<not> is_noise (gate ''R'' qs)"
  "\<not> is_noise (detector ls)" "\<not> is_noise (observable_include ls)"
  "is_noise (channel ''PAULI_CHANNEL_1'' qs p)" "is_noise (channel ''PAULI_CHANNEL_2'' qs p)"
  by (simp_all add: is_noise_def)

lemma without_noise_Cons:
  "without_noise (i # xs) = (if is_noise i then without_noise xs else i # without_noise xs)"
  by (simp add: without_noise_def)

lemma without_noise_keep:
  "(\<And>i. i \<in> set xs \<Longrightarrow> \<not> is_noise i) \<Longrightarrow> without_noise xs = xs"
  by (simp add: without_noise_def)

lemma without_noise_detectors [simp]:
  "without_noise (map (\<lambda>k. detector (f k)) ks) = map (\<lambda>k. detector (f k)) ks"
  by (rule without_noise_keep) auto

lemma without_noise_cnots [simp]:
  "without_noise (map (gate ''CNOT'') pairs) = map (gate ''CNOT'') pairs"
  by (rule without_noise_keep) auto

lemma without_noise_qubit_noise [simp]: "without_noise (qubit_noise noise qs) = []"
  by (cases noise) (simp_all add: qubit_noise_def without_noise_Cons)

lemma qubit_noise_None [simp]: "qubit_noise None qs = []"
  by (simp add: qubit_noise_def)

lemma without_noise_gate_noise [simp]: "without_noise (gate_noise noise pairs) = []"
  by (cases noise) (simp_all add: gate_noise_def without_noise_def)

lemma gate_noise_None [simp]: "gate_noise None pairs = []"
  by (simp add: gate_noise_def)



lemma silence_simps [simp]:
  "circuit (silence s) = circuit s" "rounds (silence s) = rounds s"
  "qubits (silence s) = qubits s" "data_qubits (silence s) = data_qubits s"
  "z_check_qubits (silence s) = z_check_qubits s"
  "x_check_qubits (silence s) = x_check_qubits s"
  "code_params (silence s) = code_params s"
  "noise_circuit (silence s) = None" "noise_data (silence s) = None"
  "noise_z_check (silence s) = None" "noise_x_check (silence s) = None"
  by (simp_all add: silence_def)

















text \<open>
  The arguments of every noise channel that a builder emits are one of the four noise
  fields.
\<close>

lemma args_channel [simp]: "args (channel g qs p) = p"
  by (simp add: channel_def)






lemma silence_idem [simp]: "silence (silence s) = silence s"
  by (simp add: silence_def)



lemma set_concat_replicate: "set (concat (replicate n xs)) \<subseteq> set xs"
  by (induction n) auto






lemma noise_fields_assign [simp]:
  "noise_fields (assign_repetition_roles s d) = noise_fields s"
  "noise_fields (assign_surface_roles s R C) = noise_fields s"
  "noise_fields (assign_hypergraph_roles s cl1 cl2 H1 H2) = noise_fields s"
  by (simp_all add: noise_fields_def assign_repetition_roles_def assign_surface_roles_def
        assign_hypergraph_roles_def Let_def)








lemma channel_on_gate [simp]:
  "channel_on p (gate g pair) = channel ''PAULI_CHANNEL_2'' pair p"
  by (simp add: channel_on_def gate_def channel_def)

lemma carry_Nil [simp]: "cnots_carry_channels p []"
  by (simp add: cnots_carry_channels_def)





























end
